theory Spec2Isabelle
  imports Main "HOL-Library.Char_ord" "HOL-Library.List_Lexorder"
begin

section \<open>Strings\<close>

text \<open>
  A Python \<open>str\<close> is modelled as a \<^typ>\<open>string\<close>, one \<^typ>\<open>char\<close> per code point.
  Isabelle's \<^typ>\<open>char\<close> has 256 values, read here as the code points U+0000 to U+00FF;
  \<open>len\<close> is \<^const>\<open>length\<close>. Code points above U+00FF are outside the model.
  The library functions below (\<open>str.isspace\<close>, \<open>str.lower\<close>, \<open>str.upper\<close>,
  \<open>str.strip\<close>, \<open>str.startswith\<close>, \<open>str.endswith\<close>, \<open>in\<close>, \<open>str.replace\<close>,
  \<open>str.join\<close>) follow CPython on that range.
\<close>

definition isspace :: "char \<Rightarrow> bool" where
  "isspace c = (let n = (of_char c :: nat) in
     (9 \<le> n \<and> n \<le> 13) \<or> (28 \<le> n \<and> n \<le> 32) \<or> n = 133 \<or> n = 160)"

definition lower_char :: "char \<Rightarrow> char" where
  "lower_char c = (let n = (of_char c :: nat) in
     if (65 \<le> n \<and> n \<le> 90) \<or> (192 \<le> n \<and> n \<le> 222 \<and> n \<noteq> 215)
     then char_of (n + 32) else c)"

definition lower :: "string \<Rightarrow> string" where
  "lower s = map lower_char s"

text \<open>
  \<open>str.upper\<close>: U+00DF becomes \<open>SS\<close>. The upper-case forms of U+00B5 and U+00FF lie
  above U+00FF; they are left in place, which keeps them different from every ASCII
  letter, as their real images are.
\<close>

definition upper_char :: "char \<Rightarrow> string" where
  "upper_char c = (let n = (of_char c :: nat) in
     if (97 \<le> n \<and> n \<le> 122) \<or> (224 \<le> n \<and> n \<le> 254 \<and> n \<noteq> 247)
     then [char_of (n - 32)]
     else if n = 223 then ''SS'' else [c])"

definition upper :: "string \<Rightarrow> string" where
  "upper s = concat (map upper_char s)"

definition strip :: "string \<Rightarrow> string" where
  "strip s = rev (dropWhile isspace (rev (dropWhile isspace s)))"

definition startswith :: "string \<Rightarrow> string \<Rightarrow> bool" where
  "startswith s p = (take (length p) s = p)"

definition endswith :: "string \<Rightarrow> string \<Rightarrow> bool" where
  "endswith s p = (length p \<le> length s \<and> drop (length s - length p) s = p)"

text \<open>\<open>sub in s\<close>: \<open>sub\<close> occurs in \<open>s\<close> as a contiguous block.\<close>

fun contains :: "string \<Rightarrow> string \<Rightarrow> bool" where
  "contains [] sub = (sub = [])"
| "contains (c # cs) sub = (startswith (c # cs) sub \<or> contains cs sub)"

text \<open>
  \<open>s.replace(old, new)\<close>: the occurrences of \<open>old\<close> are found from the left and do not
  overlap. For an empty \<open>old\<close> Python puts \<open>new\<close> before every character and at the end.
\<close>

function replace :: "string \<Rightarrow> string \<Rightarrow> string \<Rightarrow> string" where
  "replace s old new =
     (if old = [] then new @ concat (map (\<lambda>c. c # new) s)
      else if s = [] then []
      else if startswith s old then new @ replace (drop (length old) s) old new
      else hd s # replace (tl s) old new)"
  by pat_completeness auto
termination
  by (relation "measure (\<lambda>(s, old, new). length s)") auto

declare replace.simps [simp del]

fun join :: "string \<Rightarrow> string list \<Rightarrow> string" where
  "join sep [] = []"
| "join sep [x] = x"
| "join sep (x # y # ys) = x @ sep @ join sep (y # ys)"

section \<open>Distributions\<close>

text \<open>
  What the program reads of an \<open>importlib.metadata.Distribution\<close>:
  \<open>dist.metadata.get("Name")\<close>, \<open>dist.name\<close>, \<open>dist.version\<close>,
  \<open>dist.metadata.get_all("Classifier")\<close>, \<open>dist.metadata.get("License")\<close> and
  \<open>dist.files\<close> (each entry as \<open>str(f)\<close>) and \<open>dist.locate_file\<close>.
  \<open>None\<close> is \<^const>\<open>None\<close>. A path is the string \<open>str(p)\<close>, written with \<open>/\<close>.
  Reading \<open>dist.files\<close> parses the distribution's manifest and can raise; \<open>files\<close> is
  the value read, or the error raised. An \<open>OSError\<close> carries its message \<open>str(e)\<close>.
\<close>

datatype error = OSError string | SystemExit | IndexError

record dist =
  meta_Name :: "string option"
  name :: "string option"
  version :: "string option"
  meta_Classifier :: "string list option"
  meta_License :: "string option"
  files :: "error + string list option"
  locate_file :: "string \<Rightarrow> string"

section \<open>License inference\<close>

text \<open>The first loop of \<open>_infer_license_from_metadata\<close>: the trimmed classifiers that start
  with \<open>License ::\<close>.\<close>

fun lic_classifiers :: "string list \<Rightarrow> string list" where
  "lic_classifiers [] = []"
| "lic_classifiers (c # cs) =
     (if startswith (strip c) ''License ::'' then strip c # lic_classifiers cs
      else lic_classifiers cs)"

text \<open>The deduplication loop of \<open>_short_from_classifiers\<close>, with its two accumulators.\<close>

fun uniq_loop :: "string list \<Rightarrow> string set \<Rightarrow> string list \<Rightarrow> string list" where
  "uniq_loop [] seen uniq = uniq"
| "uniq_loop (x # xs) seen uniq =
     (if x \<notin> seen then uniq_loop xs (insert x seen) (uniq @ [x])
      else uniq_loop xs seen uniq)"

text \<open>The body of the simplification loop of \<open>_short_from_classifiers\<close>.\<close>

definition simplify :: "string \<Rightarrow> string" where
  "simplify x =
     (let s = strip (replace x ''OSI Approved ::'' [])
      in if endswith s ''License'' then strip (take (length s - length ''License'') s) else s)"

definition short_from_classifiers :: "string list \<Rightarrow> string" where
  "short_from_classifiers items =
     (if items = [] then []
      else let cleaned = map (\<lambda>x. strip (replace x ''License ::'' [])) items;
               uniq = uniq_loop cleaned {} [];
               simplified = map simplify uniq
           in join ''; '' simplified)"

definition classifier_guess :: "dist \<Rightarrow> string" where
  "classifier_guess d =
     short_from_classifiers
       (lic_classifiers (case meta_Classifier d of None \<Rightarrow> [] | Some cs \<Rightarrow> cs))"

definition lic_field :: "dist \<Rightarrow> string" where
  "lic_field d = strip (case meta_License d of None \<Rightarrow> [] | Some s \<Rightarrow> s)"

definition full_text_keywords :: "string list" where
  "full_text_keywords = [''copyright'', ''permission'', ''warranty'', ''redistribution'', ''liability'']"

definition looks_like_full_text :: "string \<Rightarrow> bool" where
  "looks_like_full_text s =
     (if s = [] then False
      else if CHR 0x0A \<in> set s \<or> CHR 0x0D \<in> set s then True
      else if length s > 120 then True
      else list_ex (\<lambda>k. contains (lower s) k) full_text_keywords)"

text \<open>\<open>x or "UNKNOWN"\<close>.\<close>

definition or_unknown :: "string \<Rightarrow> string" where
  "or_unknown g = (if g = [] then ''UNKNOWN'' else g)"

definition infer_license_from_metadata :: "dist \<Rightarrow> string" where
  "infer_license_from_metadata d =
     (if looks_like_full_text (lic_field d) then or_unknown (classifier_guess d)
      else if lic_field d \<noteq> [] \<and> upper (lic_field d) \<noteq> ''UNKNOWN'' then lic_field d
      else or_unknown (classifier_guess d))"

section \<open>Name normalizer\<close>

text \<open>\<open>re.sub(r"\s+", "_", s)\<close>: scanning from the left, each longest block of whitespace
  becomes one underscore.\<close>

function sub_ws :: "string \<Rightarrow> string" where
  "sub_ws [] = []"
| "sub_ws (c # cs) =
     (if isspace c then CHR ''_'' # sub_ws (dropWhile isspace cs) else c # sub_ws cs)"
  by pat_completeness auto
termination
  by (relation "measure length") (auto simp: length_dropWhile_le less_Suc_eq_le)

text \<open>The character class \<open>[A-Za-z0-9._+-]\<close>.\<close>

definition safe_char :: "char \<Rightarrow> bool" where
  "safe_char c = (let n = (of_char c :: nat) in
     (65 \<le> n \<and> n \<le> 90) \<or> (97 \<le> n \<and> n \<le> 122) \<or> (48 \<le> n \<and> n \<le> 57) \<or>
     c = CHR ''.'' \<or> c = CHR ''_'' \<or> c = CHR ''+'' \<or> c = CHR ''-'')"

text \<open>\<open>re.sub(r"[^A-Za-z0-9._+-]", "_", s)\<close>.\<close>

definition sub_unsafe :: "string \<Rightarrow> string" where
  "sub_unsafe s = map (\<lambda>c. if safe_char c then c else CHR ''_'') s"

definition norm_name :: "string \<Rightarrow> string" where
  "norm_name nm = sub_unsafe (sub_ws (strip nm))"

section \<open>Paths\<close>

text \<open>
  \<open>Path(s).name\<close>: the last component of the path; empty components and \<open>.\<close> are dropped
  when pathlib parses the string.
\<close>

fun split_path :: "string \<Rightarrow> string list" where
  "split_path [] = [[]]"
| "split_path (c # cs) =
     (if c = CHR ''/'' then [] # split_path cs
      else (case split_path cs of [] \<Rightarrow> [[c]] | x # xs \<Rightarrow> (c # x) # xs))"

definition path_name :: "string \<Rightarrow> string" where
  "path_name s =
     (case rev (filter (\<lambda>p. p \<noteq> [] \<and> p \<noteq> ''.'') (split_path s)) of
        [] \<Rightarrow> []
      | p # _ \<Rightarrow> p)"

text \<open>
  \<open>PurePath.suffix\<close> and \<open>PurePath.stem\<close> of a file name: with \<open>i = name.rfind(".")\<close>, the
  suffix is \<open>name[i:]\<close> when \<open>0 < i < len(name) - 1\<close>, and empty otherwise.
\<close>

definition name_suffix :: "string \<Rightarrow> string" where
  "name_suffix nm =
     (if CHR ''.'' \<notin> set nm then []
      else let i = length nm - 1 - length (takeWhile (\<lambda>c. c \<noteq> CHR ''.'') (rev nm))
           in if 0 < i \<and> i < length nm - 1 then drop i nm else [])"

definition name_stem :: "string \<Rightarrow> string" where
  "name_stem nm = take (length nm - length (name_suffix nm)) nm"

section \<open>License file locator\<close>

text \<open>
  \<open>LICENSE_BASENAME_RE.match(base)\<close> for the pattern
  \<open>^(LICENSE|COPYING|NOTICE)([._-].+)?$\<close> with \<open>re.IGNORECASE\<close>. The dot matches no
  line feed, and \<open>$\<close> matches at the end and before a final line feed.
\<close>

definition match_tail :: "string \<Rightarrow> bool" where
  "match_tail t =
     (case t of
        [] \<Rightarrow> True
      | c # r \<Rightarrow>
          t = [CHR 0x0A] \<or>
          ((c = CHR ''.'' \<or> c = CHR ''_'' \<or> c = CHR ''-'') \<and>
           (let r' = (if r \<noteq> [] \<and> last r = CHR 0x0A then butlast r else r)
            in r' \<noteq> [] \<and> CHR 0x0A \<notin> set r')))"

definition LICENSE_BASENAME_RE :: "string \<Rightarrow> bool" where
  "LICENSE_BASENAME_RE base =
     list_ex (\<lambda>tok. lower (take (length tok) base) = lower tok \<and>
                    match_tail (drop (length tok) base))
       [''LICENSE'', ''COPYING'', ''NOTICE'']"

text \<open>
  The file system as the locator and the collector query it. \<open>rglob fs d\<close> lists what
  \<open>d.rglob("*")\<close> yields, each path relative to \<open>d\<close>; \<open>read_file\<close> is the content
  \<open>shutil.copy2\<close> reads, or the error it raises; \<open>mkdir\<close> is the result of
  \<open>out_dir.mkdir(parents=True, exist_ok=True)\<close>; \<open>glob fs d pat\<close> lists \<open>d.glob(pat)\<close>.
  Each of \<open>Path.is_file\<close>, \<open>Path.is_dir\<close>, \<open>Path.resolve\<close>, \<open>Path.rglob\<close> and \<open>Path.glob\<close>
  can raise (a permission error, say): the query gives its answer, or the error raised.
  The source catches none of them, so in the functions below the first error ends the
  function and is its result.
\<close>

record filesystem =
  is_file :: "string \<Rightarrow> error + bool"
  is_dir :: "string \<Rightarrow> error + bool"
  resolve :: "string \<Rightarrow> error + string"
  rglob :: "string \<Rightarrow> error + string list"
  glob :: "string \<Rightarrow> string \<Rightarrow> error + string list"
  read_file :: "string \<Rightarrow> error + string"
  mkdir :: "error option"

text \<open>The test the first loop of \<open>_select_license_files_from_dist\<close> applies to a manifest
  entry \<open>s\<close> with base name \<open>base\<close>, branch by branch.\<close>

definition manifest_hit :: "string \<Rightarrow> string \<Rightarrow> bool" where
  "manifest_hit s base =
     (if contains s ''/.dist-info/'' \<or> endswith s ''.dist-info'' then
        (if LICENSE_BASENAME_RE base then True
         else if contains (lower s) ''/.dist-info/licenses/'' then True
         else LICENSE_BASENAME_RE base)
      else LICENSE_BASENAME_RE base)"

fun manifest_scan :: "filesystem \<Rightarrow> dist \<Rightarrow> string list \<Rightarrow> error + string list" where
  "manifest_scan fs d [] = Inr []"
| "manifest_scan fs d (f # rest) =
     (let s = replace f [CHR 0x5C] ''/'';
          base = path_name s
      in if manifest_hit s base then
           (case is_file fs (locate_file d f) of
              Inl e \<Rightarrow> Inl e
            | Inr b \<Rightarrow>
                (case manifest_scan fs d rest of
                   Inl e \<Rightarrow> Inl e
                 | Inr paths \<Rightarrow> Inr (if b then locate_file d f # paths else paths)))
         else manifest_scan fs d rest)"

text \<open>The second loop, over \<open>dist_info_dir.rglob("*")\<close>.\<close>

fun dist_info_scan :: "filesystem \<Rightarrow> string \<Rightarrow> string list \<Rightarrow> error + string list" where
  "dist_info_scan fs dir [] = Inr []"
| "dist_info_scan fs dir (r # rest) =
     (let p = dir @ ''/'' @ r
      in case is_file fs p of
           Inl e \<Rightarrow> Inl e
         | Inr b \<Rightarrow>
             (case dist_info_scan fs dir rest of
                Inl e \<Rightarrow> Inl e
              | Inr paths \<Rightarrow>
                  if \<not> b then Inr paths
                  else let base = path_name p;
                           rel = lower (replace r [CHR 0x5C] ''/'')
                       in if LICENSE_BASENAME_RE base then Inr (p # paths)
                          else if startswith rel ''licenses/'' then Inr (p # paths)
                          else Inr paths))"

text \<open>The key of the last loop, \<open>str(p.resolve()).lower()\<close>, or the error that \<open>resolve\<close>
  raises.\<close>

definition path_key :: "filesystem \<Rightarrow> string \<Rightarrow> error + string" where
  "path_key fs p = (case resolve fs p of Inl e \<Rightarrow> Inl e | Inr rp \<Rightarrow> Inr (lower rp))"

text \<open>The last loop: one entry per resolved path, compared in lower case.\<close>

fun uniq_paths ::
  "filesystem \<Rightarrow> string list \<Rightarrow> string set \<Rightarrow> string list \<Rightarrow> error + string list" where
  "uniq_paths fs [] seen uniq = Inr uniq"
| "uniq_paths fs (p # ps) seen uniq =
     (case path_key fs p of
        Inl e \<Rightarrow> Inl e
      | Inr key \<Rightarrow>
          if key \<notin> seen then uniq_paths fs ps (insert key seen) (uniq @ [p])
          else uniq_paths fs ps seen uniq)"

text \<open>The first tier: \<open>paths\<close> after the loop over \<open>dist.files or []\<close>.\<close>

definition primary_paths :: "filesystem \<Rightarrow> dist \<Rightarrow> error + string list" where
  "primary_paths fs d =
     (case files d of
        Inl e \<Rightarrow> Inl e
      | Inr fl \<Rightarrow> manifest_scan fs d (case fl of None \<Rightarrow> [] | Some l \<Rightarrow> l))"

text \<open>The second tier: entered when the first found nothing and \<open>dist_info_dir\<close> is a
  directory.\<close>

definition fallback_paths :: "filesystem \<Rightarrow> string option \<Rightarrow> error + string list" where
  "fallback_paths fs dist_info_dir =
     (case dist_info_dir of
        None \<Rightarrow> Inr []
      | Some dir \<Rightarrow>
          (case is_dir fs dir of
             Inl e \<Rightarrow> Inl e
           | Inr b \<Rightarrow>
               if b then (case rglob fs dir of Inl e \<Rightarrow> Inl e | Inr rs \<Rightarrow> dist_info_scan fs dir rs)
               else Inr []))"

definition select_license_files_from_dist ::
  "filesystem \<Rightarrow> dist \<Rightarrow> string option \<Rightarrow> error + string list" where
  "select_license_files_from_dist fs d dist_info_dir =
     (case primary_paths fs d of
        Inl e \<Rightarrow> Inl e
      | Inr paths1 \<Rightarrow>
          if paths1 = [] then
            (case fallback_paths fs dist_info_dir of
               Inl e \<Rightarrow> Inl e
             | Inr paths2 \<Rightarrow> uniq_paths fs paths2 {} [])
          else uniq_paths fs paths1 {} [])"

section \<open>Copying under a unique name\<close>

text \<open>The decimal form \<open>str(i)\<close> that the f-string \<open>f"{stem}_{i}{suffix}"\<close> inserts.\<close>

definition digit_char :: "nat \<Rightarrow> char" where
  "digit_char k = char_of (48 + k)"

fun str_nat :: "nat \<Rightarrow> string" where
  "str_nat n = (if n < 10 then [digit_char n] else str_nat (n div 10) @ [digit_char (n mod 10)])"

declare str_nat.simps [simp del]


lemma digit_char_inj: "a < 10 \<Longrightarrow> b < 10 \<Longrightarrow> digit_char a = digit_char b \<Longrightarrow> a = b"
proof -
  assume a: "a < 10" and b: "b < 10" and e: "digit_char a = digit_char b"
  have "(of_char (digit_char a) :: nat) = of_char (digit_char b)" using e by simp
  then have "(48 + a) mod 256 = (48 + b) mod 256"
    by (simp add: digit_char_def)
  then show "a = b" using a b by simp
qed

lemma str_nat_nonempty: "str_nat n \<noteq> []"
  by (subst str_nat.simps) simp

lemma str_nat_inj: "str_nat n = str_nat m \<Longrightarrow> n = m"
proof (induction n arbitrary: m rule: str_nat.induct)
  case (1 n)
  show ?case
  proof (cases "n < 10")
    case True
    then have sn: "str_nat n = [digit_char n]" by (subst str_nat.simps) simp
    show ?thesis
    proof (cases "m < 10")
      case mt: True
      then have "str_nat m = [digit_char m]" by (subst str_nat.simps) simp
      with sn "1.prems" have "digit_char n = digit_char m" by simp
      then show ?thesis using True mt digit_char_inj by blast
    next
      case mf: False
      then have "str_nat m = str_nat (m div 10) @ [digit_char (m mod 10)]"
        by (subst str_nat.simps) simp
      with sn "1.prems" have "str_nat (m div 10) = []" by simp
      then show ?thesis using str_nat_nonempty by blast
    qed
  next
    case False
    then have sn: "str_nat n = str_nat (n div 10) @ [digit_char (n mod 10)]"
      by (subst str_nat.simps) simp
    show ?thesis
    proof (cases "m < 10")
      case mt: True
      then have "str_nat m = [digit_char m]" by (subst str_nat.simps) simp
      with sn "1.prems" have "str_nat (n div 10) = []" by simp
      then show ?thesis using str_nat_nonempty by blast
    next
      case mf: False
      then have "str_nat m = str_nat (m div 10) @ [digit_char (m mod 10)]"
        by (subst str_nat.simps) simp
      with sn "1.prems" have e1: "str_nat (n div 10) = str_nat (m div 10)"
        and e2: "digit_char (n mod 10) = digit_char (m mod 10)" by simp_all
      from "1.IH" [OF False e1] have d: "n div 10 = m div 10" .
      from e2 have r: "n mod 10 = m mod 10" using digit_char_inj [of "n mod 10" "m mod 10"] by simp
      have "n = 10 * (n div 10) + n mod 10" by simp
      also have "\<dots> = 10 * (m div 10) + m mod 10" using d r by simp
      also have "\<dots> = m" by simp
      finally show ?thesis .
    qed
  qed
qed

definition candidate :: "string \<Rightarrow> string \<Rightarrow> nat \<Rightarrow> string" where
  "candidate stem suffix i = stem @ ''_'' @ str_nat i @ suffix"

lemma candidate_inj: "candidate stem suffix i = candidate stem suffix j \<Longrightarrow> i = j"
  by (simp add: candidate_def str_nat_inj)

lemma finite_taken: "finite {j. candidate stem suffix j \<in> set names}"
proof -
  have "inj (candidate stem suffix)" by (rule injI) (rule candidate_inj)
  then have "finite (candidate stem suffix -` set names)"
    by (intro finite_vimageI) simp_all
  then show ?thesis by (simp add: vimage_def)
qed

function find_free :: "string list \<Rightarrow> string \<Rightarrow> string \<Rightarrow> nat \<Rightarrow> string" where
  "find_free names stem suffix i =
     (if candidate stem suffix i \<notin> set names then candidate stem suffix i
      else find_free names stem suffix (i + 1))"
  by pat_completeness auto
termination
proof (relation "measure (\<lambda>(names, stem, suffix, i). card {j. i \<le> j \<and> candidate stem suffix j \<in> set names})")
  show "wf (measure (\<lambda>(names, stem, suffix, i). card {j. i \<le> j \<and> candidate stem suffix j \<in> set names}))"
    by simp
next
  fix names :: "string list" and stem suffix :: string and i :: nat
  assume "\<not> candidate stem suffix i \<notin> set names"
  then have mem: "candidate stem suffix i \<in> set names" by simp
  let ?A = "{j. i \<le> j \<and> candidate stem suffix j \<in> set names}"
  let ?B = "{j. i + 1 \<le> j \<and> candidate stem suffix j \<in> set names}"
  have fin: "finite ?A" using finite_taken [of stem suffix names] by (rule rev_finite_subset) auto
  have "i \<in> ?A" and "i \<notin> ?B" and "?B \<subseteq> ?A" using mem by auto
  then have "?B \<subset> ?A" by blast
  then have "card ?B < card ?A" using fin by (rule psubset_card_mono [rotated])
  then show "((names, stem, suffix, i + 1), (names, stem, suffix, i))
        \<in> measure (\<lambda>(names, stem, suffix, i). card {j. i \<le> j \<and> candidate stem suffix j \<in> set names})"
    by simp
qed

declare find_free.simps [simp del]

text \<open>
  The output directory: the entries below \<open>out_dir\<close>, each name with its content.
  \<open>(out_dir / n).exists()\<close> is \<open>exists_in\<close>; \<open>shutil.copy2\<close> writes with \<open>write_file\<close>,
  which replaces the content of a name that is there and adds any other name.
\<close>

type_synonym outdir = "(string \<times> string) list"

definition exists_in :: "outdir \<Rightarrow> string \<Rightarrow> bool" where
  "exists_in out n = (n \<in> set (map fst out))"

definition write_file :: "string \<Rightarrow> string \<Rightarrow> outdir \<Rightarrow> outdir" where
  "write_file n c out =
     (if exists_in out n then map (\<lambda>(k, v). if k = n then (k, c) else (k, v)) out
      else out @ [(n, c)])"

text \<open>\<open>_copy_with_unique_name\<close> returns the copied name, or the error that \<open>mkdir\<close> or
  \<open>copy2\<close> raised, together with the output directory after the call.\<close>

definition copy_with_unique_name ::
  "filesystem \<Rightarrow> outdir \<Rightarrow> string \<Rightarrow> string \<Rightarrow> (error + string) \<times> outdir" where
  "copy_with_unique_name fs out src prefix =
     (case mkdir fs of
        Some e \<Rightarrow> (Inl e, out)
      | None \<Rightarrow>
          let base = path_name src;
              dst_name = prefix @ ''-'' @ base;
              dst = (if exists_in out dst_name
                     then find_free (map fst out) (name_stem (path_name dst_name))
                            (name_suffix (path_name dst_name)) 2
                     else dst_name)
          in case read_file fs src of
               Inl e \<Rightarrow> (Inl e, out)
             | Inr content \<Rightarrow> (Inr (path_name dst), write_file dst content out))"

section \<open>Collector\<close>

record DistLicenseCopy =
  dist_name :: string
  dist_version :: string
  inferred_license :: string
  copied_files :: "string list"

record collect_state =
  out_dir :: outdir
  results :: "DistLicenseCopy list"
  warnings :: "string list"

text \<open>
  What the collector reads of the interpreter: \<open>sys.prefix\<close>, \<open>sys.base_prefix\<close> and
  \<open>sys.version\<close>. \<open>_find_dist_info_dir\<close> only chooses the directory that the locator's
  second loop walks; it is a parameter of the collector here, and gives that choice or the
  error that its directory listing raises.
\<close>

record runtime =
  sys_prefix :: string
  sys_base_prefix :: string
  sys_version :: string
  find_dist_info_dir :: "string \<Rightarrow> dist \<Rightarrow> error + string option"

text \<open>The loop over \<open>p2.glob("python*/site-packages")\<close> in \<open>_site_packages_dir\<close>.\<close>

fun first_dir :: "filesystem \<Rightarrow> string list \<Rightarrow> error + string" where
  "first_dir fs [] = Inl SystemExit"
| "first_dir fs (child # rest) =
     (case is_dir fs child of
        Inl e \<Rightarrow> Inl e
      | Inr b \<Rightarrow> if b then Inr child else first_dir fs rest)"

definition site_packages_dir :: "filesystem \<Rightarrow> runtime \<Rightarrow> error + string" where
  "site_packages_dir fs rt =
     (let p = sys_prefix rt @ ''/Lib/site-packages''
      in case is_dir fs p of
           Inl e \<Rightarrow> Inl e
         | Inr b \<Rightarrow>
             if b then Inr p
             else let p2 = sys_prefix rt @ ''/lib''
                  in case is_dir fs p2 of
                       Inl e \<Rightarrow> Inl e
                     | Inr b2 \<Rightarrow>
                         if b2 then
                           (case glob fs p2 ''python*/site-packages'' of
                              Inl e \<Rightarrow> Inl e
                            | Inr children \<Rightarrow> first_dir fs children)
                         else Inl SystemExit)"

definition error_text :: "error \<Rightarrow> string" where
  "error_text e = (case e of OSError m \<Rightarrow> m | SystemExit \<Rightarrow> [] | IndexError \<Rightarrow> [])"

text \<open>The loop over \<open>lic_files\<close> in \<open>collect_licenses\<close>, with its \<open>try\<close>/\<open>except\<close>.\<close>

fun copy_loop ::
  "filesystem \<Rightarrow> string \<Rightarrow> string \<Rightarrow> string \<Rightarrow> string list \<Rightarrow>
   outdir \<times> string list \<times> string list \<Rightarrow> outdir \<times> string list \<times> string list" where
  "copy_loop fs dn dv prefix [] st = st"
| "copy_loop fs dn dv prefix (lf # lfs) (out, copied, warns) =
     (case copy_with_unique_name fs out lf prefix of
        (Inr copied_name, out') \<Rightarrow> copy_loop fs dn dv prefix lfs (out', copied @ [copied_name], warns)
      | (Inl e, out') \<Rightarrow>
          copy_loop fs dn dv prefix lfs
            (out', copied,
             warns @ [''[WARN] copy failed: '' @ dn @ '' '' @ dv @ '' : '' @ lf @ '' : '' @ error_text e]))"

text \<open>\<open>dist.metadata.get("Name") or dist.name\<close>.\<close>

definition dist_name_of :: "dist \<Rightarrow> string option" where
  "dist_name_of d =
     (case meta_Name d of None \<Rightarrow> name d | Some n \<Rightarrow> if n \<noteq> [] then Some n else name d)"

text \<open>\<open>dist.version or "UNKNOWN"\<close>.\<close>

definition dist_ver_of :: "dist \<Rightarrow> string" where
  "dist_ver_of d = (case version d of None \<Rightarrow> ''UNKNOWN'' | Some v \<Rightarrow> or_unknown v)"

text \<open>
  The body of the loop over the distributions. \<open>_find_dist_info_dir\<close> and
  \<open>_select_license_files_from_dist\<close> are called outside the \<open>try\<close>: an error of theirs
  ends \<open>collect_licenses\<close>.
\<close>

definition process_dist ::
  "filesystem \<Rightarrow> (dist \<Rightarrow> error + string option) \<Rightarrow> string set \<Rightarrow> collect_state \<Rightarrow> dist \<Rightarrow>
   error + collect_state" where
  "process_dist fs find_dir exclude st d =
     (case dist_name_of d of
        None \<Rightarrow> Inr st
      | Some dn \<Rightarrow>
          if dn = [] then Inr st
          else if lower (norm_name dn) \<in> exclude \<or> lower dn \<in> exclude then Inr st
          else
            (case find_dir d of
               Inl e \<Rightarrow> Inl e
             | Inr dist_info_dir \<Rightarrow>
                 (case select_license_files_from_dist fs d dist_info_dir of
                    Inl e \<Rightarrow> Inl e
                  | Inr lic_files \<Rightarrow>
                      (case copy_loop fs dn (dist_ver_of d) (norm_name dn) lic_files
                              (out_dir st, [], warnings st) of
                         (out', copied, warns) \<Rightarrow>
                           Inr \<lparr>out_dir = out',
                                results = results st @
                                  [\<lparr>dist_name = dn, dist_version = dist_ver_of d,
                                    inferred_license = infer_license_from_metadata d,
                                    copied_files = sort copied\<rparr>],
                                warnings =
                                  (if copied = []
                                   then warns @ [''[WARN] no license file found for: '' @ dn @
                                                 '' '' @ dist_ver_of d]
                                   else warns)\<rparr>))))"

text \<open>The loop over the distributions: it stops at the first error.\<close>

fun process_all ::
  "filesystem \<Rightarrow> (dist \<Rightarrow> error + string option) \<Rightarrow> string set \<Rightarrow> collect_state \<Rightarrow> dist list \<Rightarrow>
   error + collect_state" where
  "process_all fs find_dir exclude st [] = Inr st"
| "process_all fs find_dir exclude st (d # ds) =
     (case process_dist fs find_dir exclude st d of
        Inl e \<Rightarrow> Inl e
      | Inr st' \<Rightarrow> process_all fs find_dir exclude st' ds)"

definition sort_key_of :: "dist \<Rightarrow> string" where
  "sort_key_of d = lower (case dist_name_of d of None \<Rightarrow> [] | Some n \<Rightarrow> n)"

fun try_copy_candidates ::
  "filesystem \<Rightarrow> outdir \<Rightarrow> string list \<Rightarrow> (error + string option) \<times> outdir" where
  "try_copy_candidates fs out [] = (Inr None, out)"
| "try_copy_candidates fs out (c # cs) =
     (case is_file fs c of
        Inl e \<Rightarrow> (Inl e, out)
      | Inr b \<Rightarrow>
          if b then
            (case copy_with_unique_name fs out c ''Python'' of
               (Inl e, out') \<Rightarrow> (Inl e, out')
             | (Inr n, out') \<Rightarrow> (Inr (Some n), out'))
          else try_copy_candidates fs out cs)"

definition try_copy_python_license ::
  "filesystem \<Rightarrow> runtime \<Rightarrow> outdir \<Rightarrow> (error + string option) \<times> outdir" where
  "try_copy_python_license fs rt out =
     try_copy_candidates fs out
       [sys_base_prefix rt @ ''/LICENSE.txt'',
        sys_base_prefix rt @ ''/LICENSE'',
        sys_base_prefix rt @ ''/LICENSE.rst'']"

text \<open>\<open>sys.version.split()[0] if sys.version else "UNKNOWN"\<close>; the index fails on a version
  string of whitespace only.\<close>

definition py_ver :: "runtime \<Rightarrow> error + string" where
  "py_ver rt =
     (if sys_version rt = [] then Inr ''UNKNOWN''
      else if dropWhile isspace (sys_version rt) = [] then Inl IndexError
      else Inr (takeWhile (\<lambda>c. \<not> isspace c) (dropWhile isspace (sys_version rt))))"

text \<open>The end of \<open>collect_licenses\<close>, after the loop: the interpreter's own license.\<close>

definition add_python_license ::
  "filesystem \<Rightarrow> runtime \<Rightarrow> collect_state \<Rightarrow> error + collect_state" where
  "add_python_license fs rt st =
     (case try_copy_python_license fs rt (out_dir st) of
        (Inl e, out') \<Rightarrow> Inl e
      | (Inr None, out') \<Rightarrow>
          Inr (st\<lparr>out_dir := out', warnings := warnings st @
            [''[WARN] Python runtime LICENSE was not found under sys.base_prefix.'']\<rparr>)
      | (Inr (Some py_copied), out') \<Rightarrow>
          if py_copied = [] then
            Inr (st\<lparr>out_dir := out', warnings := warnings st @
              [''[WARN] Python runtime LICENSE was not found under sys.base_prefix.'']\<rparr>)
          else
            (case py_ver rt of
               Inl e \<Rightarrow> Inl e
             | Inr v \<Rightarrow>
                 Inr (st\<lparr>out_dir := out', results := results st @
                   [\<lparr>dist_name = ''Python'', dist_version = v,
                     inferred_license = ''Python Software Foundation License (PSF-2.0)'',
                     copied_files = [py_copied]\<rparr>]\<rparr>)))"

text \<open>
  \<open>collect_licenses\<close>: the distributions of the catalog are \<open>dists\<close>, the output directory
  is passed in as it is before the run, and comes back in the final state.
\<close>

definition collect_licenses ::
  "filesystem \<Rightarrow> runtime \<Rightarrow> dist list \<Rightarrow> outdir \<Rightarrow> string set \<Rightarrow> error + collect_state" where
  "collect_licenses fs rt dists output_dir exclude =
     (case site_packages_dir fs rt of
        Inl e \<Rightarrow> Inl e
      | Inr site_packages \<Rightarrow>
          (case process_all fs (find_dist_info_dir rt site_packages) exclude
                  \<lparr>out_dir = output_dir, results = [], warnings = []\<rparr>
                  (sort_key sort_key_of dists) of
             Inl e \<Rightarrow> Inl e
           | Inr st \<Rightarrow> add_python_license fs rt st))"

text \<open>The exclude set that \<open>main\<close> builds from the \<open>--exclude\<close> arguments.\<close>

definition exclude_of_args :: "string list \<Rightarrow> string set" where
  "exclude_of_args args = set (map (\<lambda>x. lower (norm_name x)) args)"

section \<open>Definitions that follow the specification's words\<close>

text \<open>The specification's test for a full-text-like \<open>License\<close> field.\<close>

definition spec_full_text_like :: "string \<Rightarrow> bool" where
  "spec_full_text_like s =
     (CHR 0x0A \<in> set s \<or> length s > 120 \<or>
      list_ex (\<lambda>k. contains (lower s) k) full_text_keywords)"

text \<open>A single line: neither a line feed nor a carriage return.\<close>

definition single_line :: "string \<Rightarrow> bool" where
  "single_line s = (CHR 0x0A \<notin> set s \<and> CHR 0x0D \<notin> set s)"

text \<open>Deduplication that keeps the first occurrence of every element, in order.\<close>

primrec first_seen :: "'a list \<Rightarrow> 'a list" where
  "first_seen [] = []"
| "first_seen (x # xs) = x # filter (\<lambda>y. y \<noteq> x) (first_seen xs)"

text \<open>
  The classifier guess as the specification words it: the values whose text begins with
  \<open>License ::\<close>, that prefix stripped, trimmed, deduplicated in first-seen order, then the
  marker and the trailing \<open>License\<close> removed as \<^const>\<open>simplify\<close> does, joined with \<open>; \<close>.
\<close>

definition spec_classifier_guess :: "string list \<Rightarrow> string" where
  "spec_classifier_guess cs =
     join ''; ''
       (map simplify
          (first_seen
             (map (\<lambda>c. strip (drop (length ''License ::'') c))
                (filter (\<lambda>c. startswith c ''License ::'') cs))))"

text \<open>
  The normalizer as the specification words it. Every run of whitespace becomes one
  underscore: a whitespace character is replaced when it starts a run (\<open>prev\<close> is false) and
  dropped when it continues one; then every character outside the safe set is replaced.
\<close>

fun spec_collapse :: "bool \<Rightarrow> string \<Rightarrow> string" where
  "spec_collapse prev [] = []"
| "spec_collapse prev (c # cs) =
     (if isspace c then (if prev then spec_collapse True cs else CHR ''_'' # spec_collapse True cs)
      else c # spec_collapse False cs)"

definition spec_normalize :: "string \<Rightarrow> string" where
  "spec_normalize nm =
     map (\<lambda>c. if safe_char c then c else CHR ''_'') (spec_collapse False nm)"

text \<open>The names of all files copied in a run, as the result records list them.\<close>

definition all_copied :: "collect_state \<Rightarrow> string list" where
  "all_copied st = concat (map copied_files (results st))"

text \<open>
  \<open>fresh_extension out0 out1 names\<close>: the output directory \<open>out1\<close> is \<open>out0\<close> with every entry
  unchanged, followed by new entries whose names differ from each other and from every
  name of \<open>out0\<close>; and \<open>names\<close> are pairwise different names of new entries.
\<close>

definition fresh_extension :: "outdir \<Rightarrow> outdir \<Rightarrow> string list \<Rightarrow> bool" where
  "fresh_extension out0 out1 names =
     (take (length out0) out1 = out0 \<and>
      distinct (map fst (drop (length out0) out1)) \<and>
      list_all (\<lambda>n. \<not> exists_in out0 n) (map fst (drop (length out0) out1)) \<and>
      distinct names \<and>
      list_all (\<lambda>n. n \<in> set (map fst (drop (length out0) out1))) names)"

text \<open>The exclusion test of \<open>collect_licenses\<close>, on the distribution's name.\<close>

definition excluded :: "string set \<Rightarrow> dist \<Rightarrow> bool" where
  "excluded exclude d =
     (case dist_name_of d of
        None \<Rightarrow> False
      | Some dn \<Rightarrow> lower (norm_name dn) \<in> exclude \<or> lower dn \<in> exclude)"

text \<open>The exclusion test as the specification words it: the normalized name, or the raw
  name in lower case, is in the exclude set.\<close>

definition spec_excluded :: "string set \<Rightarrow> dist \<Rightarrow> bool" where
  "spec_excluded exclude d =
     (case dist_name_of d of
        None \<Rightarrow> False
      | Some dn \<Rightarrow> norm_name dn \<in> exclude \<or> lower dn \<in> exclude)"

text \<open>The metadata \<open>Name\<close> field and the fallback name are both missing or empty.\<close>

definition nameless :: "dist \<Rightarrow> bool" where
  "nameless d =
     ((meta_Name d = None \<or> meta_Name d = Some []) \<and> (name d = None \<or> name d = Some []))"

text \<open>
  The disambiguated name as the specification words it: the name stays
  \<open><prefix>-<base name>\<close>, with \<open>_k\<close> put before the extension of the base name (so
  \<open><prefix>-LICENSE\<close> becomes \<open><prefix>-LICENSE_2\<close>).
\<close>

definition spec_numbered_name :: "string \<Rightarrow> string \<Rightarrow> nat \<Rightarrow> string" where
  "spec_numbered_name prefix base k =
     prefix @ ''-'' @ name_stem base @ ''_'' @ str_nat k @ name_suffix base"

section \<open>The inference engine: fallback to UNKNOWN\<close>

lemma or_unknown_nonempty: "or_unknown g \<noteq> []"
  by (simp add: or_unknown_def)

lemma short_from_classifiers_Nil: "short_from_classifiers [] = []"
  by (simp add: short_from_classifiers_def)

text \<open>
  Claim C6. \<open>infer\<close> is a total function of the metadata (the source has no failing branch)
  and its label is never empty; without a qualifying classifier and without a usable
  \<open>License\<close> field (the field is empty, or \<open>UNKNOWN\<close> in any case, or full-text-like) the
  label is exactly \<open>UNKNOWN\<close>.
\<close>

theorem infer_never_empty_unknown_fallback:
  "infer_license_from_metadata d \<noteq> [] \<and>
   (lic_classifiers (case meta_Classifier d of None \<Rightarrow> [] | Some cs \<Rightarrow> cs) = [] \<and>
    (lic_field d = [] \<or> upper (lic_field d) = ''UNKNOWN'' \<or> looks_like_full_text (lic_field d))
    \<longrightarrow> infer_license_from_metadata d = ''UNKNOWN'')"
  by (auto simp: infer_license_from_metadata_def or_unknown_def classifier_guess_def
      short_from_classifiers_Nil)

theorem infer_never_empty_unknown_fallback_witness:
  "infer_license_from_metadata
     \<lparr>meta_Name = Some ''Baz'', name = Some ''Baz'', version = Some ''0.1'',
      meta_Classifier = Some [''Programming Language :: Python''],
      meta_License = Some ''unknown'', files = Inr None, locate_file = (\<lambda>f. f)\<rparr> \<noteq> [] \<and>
   lic_classifiers [''Programming Language :: Python''] = [] \<and>
   upper (strip ''unknown'') = ''UNKNOWN'' \<and>
   infer_license_from_metadata
     \<lparr>meta_Name = Some ''Baz'', name = Some ''Baz'', version = Some ''0.1'',
      meta_Classifier = Some [''Programming Language :: Python''],
      meta_License = Some ''unknown'', files = Inr None, locate_file = (\<lambda>f. f)\<rparr> = ''UNKNOWN''"
proof -
  have a: "lic_classifiers [''Programming Language :: Python''] = []"
    by code_simp
  have b: "upper (strip ''unknown'') = ''UNKNOWN''"
    by code_simp
  show ?thesis
    using a b
      infer_never_empty_unknown_fallback
        [of "\<lparr>meta_Name = Some ''Baz'', name = Some ''Baz'', version = Some ''0.1'',
              meta_Classifier = Some [''Programming Language :: Python''],
              meta_License = Some ''unknown'', files = Inr None, locate_file = (\<lambda>f. f)\<rparr>"]
    by (simp add: lic_field_def)
qed

section \<open>The inference engine: full-text License fields\<close>

lemma spec_full_text_like_imp: "spec_full_text_like s \<Longrightarrow> looks_like_full_text s"
  unfolding spec_full_text_like_def looks_like_full_text_def
  by (auto simp: full_text_keywords_def lower_def)

lemma unknown_not_full_text: "\<not> looks_like_full_text ''UNKNOWN''"
  unfolding looks_like_full_text_def full_text_keywords_def lower_def
  by code_simp

lemma strip_unknown: "strip ''UNKNOWN'' = ''UNKNOWN''"
  by code_simp

text \<open>
  Claim C1, as stated, fails: a full-text-like \<open>License\<close> field is returned verbatim when
  the classifier guess is that very text. Here the field holds the name of the HPND
  license, which contains the keyword \<open>permission\<close>, and the classifier names the same
  license.
\<close>

theorem full_text_field_returned_verbatim:
  "spec_full_text_like (strip ''Historical Permission Notice and Disclaimer (HPND)'') \<and>
   infer_license_from_metadata
     \<lparr>meta_Name = Some ''Pillow'', name = Some ''Pillow'', version = Some ''9.0.0'',
      meta_Classifier =
        Some [''License :: OSI Approved :: Historical Permission Notice and Disclaimer (HPND)''],
      meta_License = Some ''Historical Permission Notice and Disclaimer (HPND)'',
      files = Inr None, locate_file = (\<lambda>f. f)\<rparr>
   = ''Historical Permission Notice and Disclaimer (HPND)''"
proof
  show "spec_full_text_like (strip ''Historical Permission Notice and Disclaimer (HPND)'')"
    unfolding spec_full_text_like_def full_text_keywords_def by code_simp
  show "infer_license_from_metadata
     \<lparr>meta_Name = Some ''Pillow'', name = Some ''Pillow'', version = Some ''9.0.0'',
      meta_Classifier =
        Some [''License :: OSI Approved :: Historical Permission Notice and Disclaimer (HPND)''],
      meta_License = Some ''Historical Permission Notice and Disclaimer (HPND)'',
      files = Inr None, locate_file = (\<lambda>f. f)\<rparr>
   = ''Historical Permission Notice and Disclaimer (HPND)''"
    by code_simp
qed

text \<open>
  Claim C1, amended. When the \<open>License\<close> field, trimmed as \<open>infer\<close> reads it, is
  full-text-like in the specification's sense, \<open>infer\<close> returns the classifier guess, or
  \<open>UNKNOWN\<close> when the guess is empty; the label equals the field (raw or trimmed) only when
  the classifier guess itself is that text.
\<close>

theorem full_text_field_gives_classifier_guess:
  assumes "meta_License d = Some raw" and "spec_full_text_like (strip raw)"
  shows "infer_license_from_metadata d = or_unknown (classifier_guess d) \<and>
         (infer_license_from_metadata d = raw \<or> infer_license_from_metadata d = strip raw
            \<longrightarrow> infer_license_from_metadata d = classifier_guess d)"
proof -
  have f: "lic_field d = strip raw" using assms(1) by (simp add: lic_field_def)
  have ft: "looks_like_full_text (strip raw)" using assms(2) by (rule spec_full_text_like_imp)
  have r: "infer_license_from_metadata d = or_unknown (classifier_guess d)"
    using f ft by (simp add: infer_license_from_metadata_def)
  have n1: "strip raw \<noteq> ''UNKNOWN''" using ft unknown_not_full_text by auto
  have n2: "raw \<noteq> ''UNKNOWN''" using n1 strip_unknown by auto
  show ?thesis using r n1 n2 by (auto simp: or_unknown_def)
qed

theorem full_text_field_gives_classifier_guess_witness:
  "spec_full_text_like (strip ''Copyright (c) 2020 Foo. All rights reserved.'') \<and>
   infer_license_from_metadata
     \<lparr>meta_Name = Some ''foo'', name = Some ''foo'', version = Some ''1.0'',
      meta_Classifier = Some [''License :: OSI Approved :: MIT License''],
      meta_License = Some ''Copyright (c) 2020 Foo. All rights reserved.'',
      files = Inr None, locate_file = (\<lambda>f. f)\<rparr> = ''MIT''"
proof -
  let ?d = "\<lparr>meta_Name = Some ''foo'', name = Some ''foo'', version = Some ''1.0'',
      meta_Classifier = Some [''License :: OSI Approved :: MIT License''],
      meta_License = Some ''Copyright (c) 2020 Foo. All rights reserved.'',
      files = Inr None, locate_file = (\<lambda>f. f)\<rparr>"
  have h1: "meta_License ?d = Some ''Copyright (c) 2020 Foo. All rights reserved.''" by simp
  have h2: "spec_full_text_like (strip ''Copyright (c) 2020 Foo. All rights reserved.'')"
    unfolding spec_full_text_like_def full_text_keywords_def by code_simp
  have g: "or_unknown (classifier_guess ?d) = ''MIT''" by code_simp
  from full_text_field_gives_classifier_guess [OF h1 h2]
  have "infer_license_from_metadata ?d = or_unknown (classifier_guess ?d)" by blast
  with g h2 show ?thesis by simp
qed

section \<open>The inference engine: the classifier guess\<close>

lemma first_seen_filter: "first_seen (filter P xs) = filter P (first_seen xs)"
proof (induction xs)
  case Nil
  then show ?case by simp
next
  case (Cons x xs)
  have comm: "filter (\<lambda>y. y \<noteq> x) (filter P (first_seen xs)) =
              filter P (filter (\<lambda>y. y \<noteq> x) (first_seen xs))"
    by (simp add: conj_commute)
  show ?case
  proof (cases "P x")
    case True
    then show ?thesis using Cons comm by simp
  next
    case False
    have "filter P (filter (\<lambda>y. y \<noteq> x) (first_seen xs)) = filter P (first_seen xs)"
      using False by (auto intro: filter_cong)
    then show ?thesis using False Cons by simp
  qed
qed

lemma uniq_loop_first_seen:
  "uniq_loop xs seen acc = acc @ first_seen (filter (\<lambda>y. y \<notin> seen) xs)"
proof (induction xs arbitrary: seen acc)
  case Nil
  then show ?case by simp
next
  case (Cons x xs)
  show ?case
  proof (cases "x \<in> seen")
    case True
    then show ?thesis using Cons by simp
  next
    case False
    have "filter (\<lambda>y. y \<noteq> x) (first_seen (filter (\<lambda>y. y \<notin> seen) xs))
          = first_seen (filter (\<lambda>y. y \<noteq> x) (filter (\<lambda>y. y \<notin> seen) xs))"
      by (simp add: first_seen_filter)
    also have "\<dots> = first_seen (filter (\<lambda>y. y \<notin> insert x seen) xs)"
      by (simp add: conj_commute)
    finally show ?thesis using False Cons by simp
  qed
qed

lemma lic_classifiers_filter:
  "lic_classifiers cs = map strip (filter (\<lambda>c. startswith (strip c) ''License ::'') cs)"
  by (induction cs) auto

lemma mit_guess:
  "short_from_classifiers (lic_classifiers [''License :: OSI Approved :: MIT License'']) = ''MIT''"
  by code_simp

lemma strip_Nil: "strip [] = []"
  by (simp add: strip_def)

text \<open>
  Claim C2, as stated, fails on two counts, both shown by one input. The code selects a
  value by its trimmed text, so it takes \<open> License :: MIT License\<close>, which does not begin
  with \<open>License ::\<close>; and it removes every occurrence of \<open>License ::\<close>, not the prefix only,
  so \<open>License :: A License :: B\<close> gives \<open>A  B\<close>.
\<close>

theorem classifier_guess_differs_from_spec:
  "classifier_guess
     \<lparr>meta_Name = Some ''x'', name = None, version = None,
      meta_Classifier = Some ['' License :: MIT License'', ''License :: A License :: B''],
      meta_License = None, files = Inr None, locate_file = (\<lambda>f. f)\<rparr> = ''MIT; A  B'' \<and>
   spec_classifier_guess ['' License :: MIT License'', ''License :: A License :: B'']
     = ''A License :: B''"
  by code_simp

text \<open>
  Claim C2, amended. The classifier guess is built from exactly the \<open>Classifier\<close> values
  whose trimmed text begins with \<open>License ::\<close>: every occurrence of \<open>License ::\<close> is removed
  from the trimmed value, the rest is trimmed, the tokens are deduplicated in first-seen
  order, every \<open>OSI Approved ::\<close> and a trailing \<open>License\<close> are removed (with trimming), and
  the tokens are joined with \<open>; \<close>. The distribution \<open>Foo-Bar\<close> \<open>1.2.3\<close> with the single
  classifier \<open>License :: OSI Approved :: MIT License\<close> and no \<open>License\<close> field gets \<open>MIT\<close>.
\<close>

theorem classifier_guess_construction:
  "classifier_guess d =
     join ''; ''
       (map simplify
          (first_seen
             (map (\<lambda>c. strip (replace (strip c) ''License ::'' []))
                (filter (\<lambda>c. startswith (strip c) ''License ::'')
                   (case meta_Classifier d of None \<Rightarrow> [] | Some cs \<Rightarrow> cs))))) \<and>
   infer_license_from_metadata
     \<lparr>meta_Name = Some ''Foo-Bar'', name = nm, version = Some ''1.2.3'',
      meta_Classifier = Some [''License :: OSI Approved :: MIT License''],
      meta_License = None, files = fl, locate_file = loc\<rparr> = ''MIT''"
proof
  let ?cs = "case meta_Classifier d of None \<Rightarrow> [] | Some cs \<Rightarrow> cs"
  show "classifier_guess d =
     join ''; ''
       (map simplify
          (first_seen
             (map (\<lambda>c. strip (replace (strip c) ''License ::'' []))
                (filter (\<lambda>c. startswith (strip c) ''License ::'') ?cs))))"
  proof (cases "lic_classifiers ?cs = []")
    case True
    then have "filter (\<lambda>c. startswith (strip c) ''License ::'') ?cs = []"
      by (simp add: lic_classifiers_filter)
    then show ?thesis using True by (simp add: classifier_guess_def short_from_classifiers_def)
  next
    case False
    then show ?thesis
      by (simp add: classifier_guess_def short_from_classifiers_def Let_def
          uniq_loop_first_seen lic_classifiers_filter comp_def)
  qed
next
  show "infer_license_from_metadata
     \<lparr>meta_Name = Some ''Foo-Bar'', name = nm, version = Some ''1.2.3'',
      meta_Classifier = Some [''License :: OSI Approved :: MIT License''],
      meta_License = None, files = fl, locate_file = loc\<rparr> = ''MIT''"
    using mit_guess
    by (simp add: infer_license_from_metadata_def lic_field_def strip_Nil
        looks_like_full_text_def classifier_guess_def or_unknown_def)
qed

theorem classifier_guess_construction_witness:
  "classifier_guess
     \<lparr>meta_Name = Some ''x'', name = None, version = None,
      meta_Classifier =
        Some [''License :: OSI Approved :: MIT License'', ''Topic :: Utilities'',
              ''License :: OSI Approved :: BSD License'',
              ''License :: OSI Approved :: MIT License''],
      meta_License = None, files = Inr None, locate_file = (\<lambda>f. f)\<rparr> = ''MIT; BSD''"
proof -
  let ?cs = "[''License :: OSI Approved :: MIT License'', ''Topic :: Utilities'',
              ''License :: OSI Approved :: BSD License'',
              ''License :: OSI Approved :: MIT License'']"
  let ?d = "\<lparr>meta_Name = Some ''x'', name = None, version = None,
      meta_Classifier = Some ?cs,
      meta_License = None, files = Inr None, locate_file = (\<lambda>f. f)\<rparr>"
  have e: "join ''; ''
       (map simplify
          (first_seen
             (map (\<lambda>c. strip (replace (strip c) ''License ::'' []))
                (filter (\<lambda>c. startswith (strip c) ''License ::'') ?cs)))) = ''MIT; BSD''"
    by code_simp
  from classifier_guess_construction [of ?d]
  have "classifier_guess ?d =
     join ''; ''
       (map simplify
          (first_seen
             (map (\<lambda>c. strip (replace (strip c) ''License ::'' []))
                (filter (\<lambda>c. startswith (strip c) ''License ::'') ?cs))))"
    by simp
  with e show ?thesis by simp
qed

section \<open>The inference engine: single-line labels\<close>

lemma set_strip: "set (strip s) \<subseteq> set s"
proof -
  have "set (strip s) = set (dropWhile isspace (rev (dropWhile isspace s)))"
    by (simp add: strip_def)
  also have "\<dots> \<subseteq> set (rev (dropWhile isspace s))" by (auto dest: set_dropWhileD)
  also have "\<dots> \<subseteq> set s" by (auto dest: set_dropWhileD)
  finally show ?thesis .
qed

lemma set_replace_empty: "old \<noteq> [] \<Longrightarrow> set (replace s old []) \<subseteq> set s"
proof (induction s old "[] :: string" rule: replace.induct)
  case (1 s old)
  show ?case
  proof (cases "s = []")
    case True
    then show ?thesis using "1.prems" by (subst replace.simps) simp
  next
    case False
    show ?thesis
    proof (cases "startswith s old")
      case True
      have "set (replace (drop (length old) s) old []) \<subseteq> set (drop (length old) s)"
        using "1.hyps"(1) "1.prems" False True by simp
      also have "\<dots> \<subseteq> set s" by (rule set_drop_subset)
      finally show ?thesis using "1.prems" False True by (subst replace.simps) simp
    next
      case nsw: False
      have "set (replace (tl s) old []) \<subseteq> set (tl s)"
        using "1.hyps"(2) "1.prems" False nsw by simp
      also have "\<dots> \<subseteq> set s" using False by (cases s) auto
      finally show ?thesis using "1.prems" False nsw
        by (subst replace.simps) (cases s, auto)
    qed
  qed
qed

lemma set_simplify: "set (simplify x) \<subseteq> set x"
proof -
  let ?s = "strip (replace x ''OSI Approved ::'' [])"
  have a: "set ?s \<subseteq> set x"
    using set_strip [of "replace x ''OSI Approved ::'' []"] set_replace_empty [of "''OSI Approved ::''" x]
    by auto
  have b: "set (strip (take (length ?s - length ''License'') ?s)) \<subseteq> set x"
    using set_strip [of "take (length ?s - length ''License'') ?s"] a
    by (auto dest: in_set_takeD)
  show ?thesis using a b by (auto simp: simplify_def Let_def)
qed

lemma set_join: "set (join sep xs) \<subseteq> set sep \<union> \<Union> (set ` set xs)"
  by (induction sep xs rule: join.induct) auto

lemma set_uniq_loop: "set (uniq_loop xs seen acc) \<subseteq> set xs \<union> set acc"
  by (induction xs seen acc rule: uniq_loop.induct) (auto split: if_splits)

lemma single_line_subset: "set t \<subseteq> set s \<Longrightarrow> single_line s \<Longrightarrow> single_line t"
  by (auto simp: single_line_def)

lemma single_line_short:
  assumes "\<forall>c \<in> set items. single_line c"
  shows "single_line (short_from_classifiers items)"
proof (cases "items = []")
  case True
  then show ?thesis by (simp add: short_from_classifiers_def single_line_def)
next
  case False
  let ?cleaned = "map (\<lambda>x. strip (replace x ''License ::'' [])) items"
  let ?uniq = "uniq_loop ?cleaned {} []"
  have c: "\<forall>y \<in> set ?cleaned. single_line y"
  proof
    fix y assume "y \<in> set ?cleaned"
    then obtain x where x: "x \<in> set items" and y: "y = strip (replace x ''License ::'' [])" by auto
    have "set y \<subseteq> set x"
      unfolding y using set_strip [of "replace x ''License ::'' []"] set_replace_empty [of "''License ::''" x]
      by auto
    then show "single_line y" using assms x single_line_subset by blast
  qed
  have u: "\<forall>y \<in> set ?uniq. single_line y"
    using c set_uniq_loop [of ?cleaned "{}" "[]"] by auto
  have s: "\<forall>y \<in> set (map simplify ?uniq). single_line y"
  proof
    fix y assume "y \<in> set (map simplify ?uniq)"
    then obtain x where x: "x \<in> set ?uniq" and y: "y = simplify x" by auto
    from u x have "single_line x" by blast
    with set_simplify [of x] show "single_line y" unfolding y by (rule single_line_subset)
  qed
  have "set (join ''; '' (map simplify ?uniq)) \<subseteq> set ''; '' \<union> \<Union> (set ` set (map simplify ?uniq))"
    by (rule set_join)
  then have "single_line (join ''; '' (map simplify ?uniq))"
    using s unfolding single_line_def by auto
  then show ?thesis using False by (simp add: short_from_classifiers_def Let_def)
qed

lemma single_line_field:
  "\<not> looks_like_full_text s \<Longrightarrow> single_line s"
  by (auto simp: looks_like_full_text_def single_line_def split: if_splits)

text \<open>
  Claim C5, as stated, fails: a line break inside a qualifying classifier reaches the
  label, since only the \<open>License\<close> field is tested for line breaks. Here a classifier
  value is folded over two lines.
\<close>

theorem infer_label_with_line_break:
  "\<not> single_line
       (infer_license_from_metadata
          \<lparr>meta_Name = Some ''foo'', name = Some ''foo'', version = Some ''1.0'',
           meta_Classifier =
             Some [''License :: OSI Approved :: GNU General'' @ [CHR 0x0A] @
                   '' Public License v3 (GPLv3)''],
           meta_License = None, files = Inr None, locate_file = (\<lambda>f. f)\<rparr>)"
  unfolding single_line_def by code_simp

text \<open>
  Claim C5, amended. For every metadata input in which no qualifying classifier (trimmed,
  beginning with \<open>License ::\<close>) contains a line feed or a carriage return, the label
  returned by \<open>infer\<close> contains neither: a line break in the \<open>License\<close> field never
  reaches the label.
\<close>

theorem infer_single_line:
  assumes "\<forall>c \<in> set (lic_classifiers (case meta_Classifier d of None \<Rightarrow> [] | Some cs \<Rightarrow> cs)).
             single_line c"
  shows "single_line (infer_license_from_metadata d)"
proof -
  have g: "single_line (classifier_guess d)"
    unfolding classifier_guess_def using assms by (rule single_line_short)
  have u: "single_line ''UNKNOWN''" by (simp add: single_line_def)
  have og: "single_line (or_unknown (classifier_guess d))"
    using g u by (simp add: or_unknown_def)
  show ?thesis
    using og single_line_field [of "lic_field d"]
    by (auto simp: infer_license_from_metadata_def)
qed

theorem infer_single_line_witness:
  "single_line ''License :: OSI Approved :: MIT License'' \<and>
   single_line
     (infer_license_from_metadata
        \<lparr>meta_Name = Some ''foo'', name = Some ''foo'', version = Some ''1.0'',
         meta_Classifier = Some [''License :: OSI Approved :: MIT License''],
         meta_License = Some (''MIT License'' @ [CHR 0x0A] @ ''Permission is hereby granted''),
         files = Inr None, locate_file = (\<lambda>f. f)\<rparr>)"
proof -
  let ?d = "\<lparr>meta_Name = Some ''foo'', name = Some ''foo'', version = Some ''1.0'',
         meta_Classifier = Some [''License :: OSI Approved :: MIT License''],
         meta_License = Some (''MIT License'' @ [CHR 0x0A] @ ''Permission is hereby granted''),
         files = Inr None, locate_file = (\<lambda>f. f)\<rparr>"
  have l: "lic_classifiers [''License :: OSI Approved :: MIT License'']
           = [''License :: OSI Approved :: MIT License'']"
    by code_simp
  have sl: "single_line ''License :: OSI Approved :: MIT License''"
    by (simp add: single_line_def)
  have h: "\<forall>c \<in> set (lic_classifiers (case meta_Classifier ?d of None \<Rightarrow> [] | Some cs \<Rightarrow> cs)).
             single_line c"
    using l sl by simp
  from infer_single_line [OF h] sl show ?thesis by simp
qed

section \<open>The name normalizer\<close>

lemma spec_collapse_in_run: "spec_collapse True s = spec_collapse False (dropWhile isspace s)"
  by (induction s) auto

lemma sub_ws_spec_collapse: "sub_ws s = spec_collapse False s"
  by (induction s rule: sub_ws.induct) (auto simp: spec_collapse_in_run)

lemma safe_underscore: "safe_char (CHR ''_'')"
  by (simp add: safe_char_def)

lemma sub_unsafe_safe: "list_all safe_char (sub_unsafe s)"
proof (induction s)
  case Nil
  then show ?case by (simp add: sub_unsafe_def)
next
  case (Cons c s)
  then show ?case using safe_underscore by (simp add: sub_unsafe_def)
qed

text \<open>
  Claim C8, as stated, fails: the code trims the name first, so leading and trailing
  whitespace is removed, where the claim's two replacements would turn it into
  underscores.
\<close>

theorem norm_name_trims_first:
  "norm_name '' a'' = ''a'' \<and> spec_normalize '' a'' = ''_a''"
  by code_simp

text \<open>
  Claim C8, amended. For every string \<open>name\<close>, \<open>normalize(name)\<close> is the result of trimming
  leading and trailing whitespace from \<open>name\<close>, then replacing every run of whitespace with
  a single underscore, then replacing every character outside \<open>[A-Za-z0-9._+-]\<close> with an
  underscore; it is a total function, and its result has safe characters only.
\<close>

theorem norm_name_is_spec_after_strip:
  "norm_name nm = spec_normalize (strip nm) \<and> list_all safe_char (norm_name nm)"
proof
  show "norm_name nm = spec_normalize (strip nm)"
    by (simp add: norm_name_def spec_normalize_def sub_unsafe_def sub_ws_spec_collapse)
  show "list_all safe_char (norm_name nm)"
    unfolding norm_name_def by (rule sub_unsafe_safe)
qed

theorem norm_name_is_spec_after_strip_witness:
  "norm_name ''  My  Package (v2) '' = ''My_Package__v2_'' \<and>
   spec_normalize (strip ''  My  Package (v2) '') = ''My_Package__v2_''"
proof -
  have e: "spec_normalize (strip ''  My  Package (v2) '') = ''My_Package__v2_''"
    by code_simp
  from norm_name_is_spec_after_strip [of "''  My  Package (v2) ''"]
  have "norm_name ''  My  Package (v2) '' = spec_normalize (strip ''  My  Package (v2) '')"
    by blast
  with e show ?thesis by simp
qed

section \<open>The locator\<close>









text \<open>
  Claim C3 does not hold of the code. The first loop looks for the text \<open>/.dist-info/\<close>,
  a directory named exactly \<open>.dist-info\<close>, which no entry below a directory such as
  \<open>foo-1.0.dist-info\<close> contains; so the test for \<open>/.dist-info/licenses/\<close> is never
  reached for it, and an entry there is kept only when its base name is a license base name.
  With both files on disk, the first tier keeps \<open>licenses/LICENSE\<close> and drops
  \<open>licenses/AUTHORS.md\<close>; the second tier, which does keep what lies below \<open>licenses/\<close>,
  is not entered because the first was not empty.
\<close>

theorem primary_tier_drops_licenses_entry:
  "manifest_hit ''foo-1.0.dist-info/licenses/AUTHORS.md''
     (path_name ''foo-1.0.dist-info/licenses/AUTHORS.md'') = False \<and>
   select_license_files_from_dist
     \<lparr>is_file = (\<lambda>p. Inr True), is_dir = (\<lambda>p. Inr True), resolve = (\<lambda>p. Inr p),
      rglob = (\<lambda>p. Inr [''licenses/LICENSE'', ''licenses/AUTHORS.md'']),
      glob = (\<lambda>d p. Inr []), read_file = (\<lambda>p. Inr ''text''), mkdir = None\<rparr>
     \<lparr>meta_Name = Some ''foo'', name = Some ''foo'', version = Some ''1.0'',
      meta_Classifier = None, meta_License = None,
      files = Inr (Some [''foo-1.0.dist-info/licenses/LICENSE'',
                         ''foo-1.0.dist-info/licenses/AUTHORS.md'']),
      locate_file = (\<lambda>f. ''/sp/'' @ f)\<rparr>
     (Some ''/sp/foo-1.0.dist-info'')
   = Inr [''/sp/foo-1.0.dist-info/licenses/LICENSE'']"
  by code_simp

section \<open>Copying: unique names\<close>

lemma split_path_no_slash: "CHR ''/'' \<notin> set s \<Longrightarrow> split_path s = [s]"
  by (induction s) auto

lemma split_path_nonempty: "split_path s \<noteq> []"
  by (induction s) (auto split: list.splits)

lemma split_path_parts: "p \<in> set (split_path s) \<Longrightarrow> CHR ''/'' \<notin> set p"
proof (induction s arbitrary: p)
  case Nil
  then show ?case by simp
next
  case (Cons c s)
  show ?case
  proof (cases "c = CHR ''/''")
    case True
    then show ?thesis using Cons by auto
  next
    case False
    obtain x xs where sp: "split_path s = x # xs"
      using split_path_nonempty [of s] by (cases "split_path s") auto
    have "p = c # x \<or> p \<in> set xs" using Cons.prems False sp by simp
    then show ?thesis
    proof
      assume "p = c # x"
      moreover have "CHR ''/'' \<notin> set x" using Cons.IH [of x] sp by simp
      ultimately show ?thesis using False by auto
    next
      assume "p \<in> set xs"
      then show ?thesis using Cons.IH [of p] sp by simp
    qed
  qed
qed

lemma path_name_no_slash_in: "CHR ''/'' \<notin> set (path_name s)"
proof -
  let ?ps = "rev (filter (\<lambda>p. p \<noteq> [] \<and> p \<noteq> ''.'') (split_path s))"
  show ?thesis
  proof (cases ?ps)
    case Nil
    then show ?thesis by (simp add: path_name_def)
  next
    case (Cons p ps)
    then have "p \<in> set ?ps" by simp
    then have "p \<in> set (split_path s)" by auto
    then have "CHR ''/'' \<notin> set p" by (rule split_path_parts)
    then show ?thesis using Cons by (simp add: path_name_def)
  qed
qed

lemma path_name_id:
  "CHR ''/'' \<notin> set s \<Longrightarrow> s \<noteq> [] \<Longrightarrow> s \<noteq> ''.'' \<Longrightarrow> path_name s = s"
  by (simp add: path_name_def split_path_no_slash)

lemma stem_suffix: "name_stem nm @ name_suffix nm = nm"
proof -
  have "length (name_suffix nm) \<le> length nm"
    by (simp add: name_suffix_def Let_def)
  moreover have "name_suffix nm = drop (length nm - length (name_suffix nm)) nm"
    by (auto simp: name_suffix_def Let_def)
  ultimately show ?thesis
    unfolding name_stem_def by (metis append_take_drop_id)
qed

lemma find_free_spec:
  "\<exists>k\<ge>i. find_free names stem suffix i = candidate stem suffix k \<and>
          candidate stem suffix k \<notin> set names \<and>
          (\<forall>j. i \<le> j \<and> j < k \<longrightarrow> candidate stem suffix j \<in> set names)"
proof (induction names stem suffix i rule: find_free.induct)
  case (1 names stem suffix i)
  show ?case
  proof (cases "candidate stem suffix i \<in> set names")
    case False
    then have "find_free names stem suffix i = candidate stem suffix i"
      by (subst find_free.simps) simp
    with False show ?thesis by (intro exI [of _ i]) auto
  next
    case True
    then have e: "find_free names stem suffix i = find_free names stem suffix (i + 1)"
      by (subst find_free.simps) simp
    from "1.IH" True obtain k where k: "k \<ge> i + 1"
      "find_free names stem suffix (i + 1) = candidate stem suffix k"
      "candidate stem suffix k \<notin> set names"
      "\<forall>j. i + 1 \<le> j \<and> j < k \<longrightarrow> candidate stem suffix j \<in> set names"
      by auto
    have "\<forall>j. i \<le> j \<and> j < k \<longrightarrow> candidate stem suffix j \<in> set names"
    proof (intro allI impI)
      fix j assume j: "i \<le> j \<and> j < k"
      show "candidate stem suffix j \<in> set names"
      proof (cases "j = i")
        case True
        then show ?thesis using \<open>candidate stem suffix i \<in> set names\<close> by simp
      next
        case False
        then have "i + 1 \<le> j \<and> j < k" using j by simp
        then show ?thesis using k(4) by blast
      qed
    qed
    with k e show ?thesis by (intro exI [of _ k]) auto
  qed
qed

lemma str_nat_no_slash: "CHR ''/'' \<notin> set (str_nat n)"
proof (induction n rule: str_nat.induct)
  case (1 n)
  have d: "\<And>k. k < 10 \<Longrightarrow> digit_char k \<noteq> CHR ''/''"
  proof -
    fix k :: nat assume "k < 10"
    then have "(of_char (digit_char k) :: nat) = 48 + k" by (simp add: digit_char_def)
    moreover have "(of_char (CHR ''/'') :: nat) = 47" by simp
    ultimately show "digit_char k \<noteq> CHR ''/''" by auto
  qed
  show ?case
  proof (cases "n < 10")
    case True
    then show ?thesis using d [of n] by (subst str_nat.simps) simp
  next
    case False
    then show ?thesis using "1.IH" d [of "n mod 10"] by (subst str_nat.simps) simp
  qed
qed

lemma stem_no_slash: "CHR ''/'' \<notin> set x \<Longrightarrow> CHR ''/'' \<notin> set (name_stem x)"
  unfolding name_stem_def by (auto dest: in_set_takeD)

lemma suffix_no_slash: "CHR ''/'' \<notin> set x \<Longrightarrow> CHR ''/'' \<notin> set (name_suffix x)"
  unfolding name_suffix_def Let_def by (auto dest: in_set_dropD)

lemma path_name_candidate:
  assumes "CHR ''/'' \<notin> set stem" and "CHR ''/'' \<notin> set suffix"
  shows "path_name (candidate stem suffix k) = candidate stem suffix k"
proof (rule path_name_id)
  show "CHR ''/'' \<notin> set (candidate stem suffix k)"
    using assms str_nat_no_slash [of k] by (simp add: candidate_def)
  have u: "CHR ''_'' \<in> set (candidate stem suffix k)" by (simp add: candidate_def)
  then show "candidate stem suffix k \<noteq> []" by auto
  show "candidate stem suffix k \<noteq> ''.''"
  proof
    assume "candidate stem suffix k = ''.''"
    with u show False by simp
  qed
qed

lemma path_name_dst:
  assumes "CHR ''/'' \<notin> set prefix"
  shows "path_name (prefix @ ''-'' @ path_name src) = prefix @ ''-'' @ path_name src"
proof (rule path_name_id)
  show "CHR ''/'' \<notin> set (prefix @ ''-'' @ path_name src)"
    using assms path_name_no_slash_in [of src] by simp
  show "prefix @ ''-'' @ path_name src \<noteq> []" by simp
  have u: "CHR ''-'' \<in> set (prefix @ ''-'' @ path_name src)" by simp
  show "prefix @ ''-'' @ path_name src \<noteq> ''.''"
  proof
    assume eq: "prefix @ ''-'' @ path_name src = ''.''"
    from u have "CHR ''-'' \<in> set ''.''" by (simp only: eq)
    then show False by simp
  qed
qed

lemma write_file_new: "\<not> exists_in out n \<Longrightarrow> write_file n c out = out @ [(n, c)]"
  by (simp add: write_file_def)

lemma copy_error_keeps_dir:
  "copy_with_unique_name fs out src prefix = (Inl e, out') \<Longrightarrow> out' = out"
  by (auto simp: copy_with_unique_name_def Let_def split: option.splits sum.splits)

lemma copy_unique_name:
  assumes c: "copy_with_unique_name fs out src prefix = (Inr nm, out')"
    and p: "CHR ''/'' \<notin> set prefix"
  shows "\<not> exists_in out nm"
    and "\<exists>c. read_file fs src = Inr c \<and> out' = out @ [(nm, c)]"
    and "\<not> exists_in out (prefix @ ''-'' @ path_name src) \<Longrightarrow> nm = prefix @ ''-'' @ path_name src"
    and "exists_in out (prefix @ ''-'' @ path_name src) \<Longrightarrow>
         \<exists>k\<ge>2. nm = candidate (name_stem (prefix @ ''-'' @ path_name src))
                      (name_suffix (prefix @ ''-'' @ path_name src)) k \<and>
               (\<forall>j. 2 \<le> j \<and> j < k \<longrightarrow>
                  exists_in out (candidate (name_stem (prefix @ ''-'' @ path_name src))
                      (name_suffix (prefix @ ''-'' @ path_name src)) j))"
proof -
  let ?dst_name = "prefix @ ''-'' @ path_name src"
  let ?stem = "name_stem ?dst_name"
  let ?suffix = "name_suffix ?dst_name"
  let ?dst = "if exists_in out ?dst_name then find_free (map fst out) ?stem ?suffix 2 else ?dst_name"
  have pn: "path_name ?dst_name = ?dst_name" using p by (rule path_name_dst)
  have ns: "CHR ''/'' \<notin> set ?dst_name" using p path_name_no_slash_in [of src] by simp
  have pn': "path_name (prefix @ CHR ''-'' # path_name src) = prefix @ CHR ''-'' # path_name src"
    using pn by simp
  from c obtain content where rd: "read_file fs src = Inr content"
    and nm: "nm = path_name ?dst" and o: "out' = write_file ?dst content out"
    by (auto simp: copy_with_unique_name_def Let_def pn' split: option.splits sum.splits)
  obtain k where k: "k \<ge> 2" "find_free (map fst out) ?stem ?suffix 2 = candidate ?stem ?suffix k"
    "candidate ?stem ?suffix k \<notin> set (map fst out)"
    "\<forall>j. 2 \<le> j \<and> j < k \<longrightarrow> candidate ?stem ?suffix j \<in> set (map fst out)"
    using find_free_spec [of 2 "map fst out" ?stem ?suffix] by blast
  have pc: "path_name (candidate ?stem ?suffix k) = candidate ?stem ?suffix k"
    using ns by (intro path_name_candidate stem_no_slash suffix_no_slash)
  have nmd: "nm = ?dst" using nm pn pc k(2) by (cases "exists_in out ?dst_name") simp_all
  have fresh: "\<not> exists_in out ?dst"
    using k(2,3) by (cases "exists_in out ?dst_name") (simp_all add: exists_in_def)
  show "\<not> exists_in out nm" using fresh nmd by simp
  show "\<exists>c. read_file fs src = Inr c \<and> out' = out @ [(nm, c)]"
    using rd o fresh nmd write_file_new [of out ?dst content] by simp
  show "\<not> exists_in out ?dst_name \<Longrightarrow> nm = ?dst_name" using nmd by simp
  show "exists_in out ?dst_name \<Longrightarrow>
         \<exists>k\<ge>2. nm = candidate ?stem ?suffix k \<and>
               (\<forall>j. 2 \<le> j \<and> j < k \<longrightarrow> exists_in out (candidate ?stem ?suffix j))"
    using nmd k by (auto simp: exists_in_def)
qed

lemma fresh_extension_iff:
  "fresh_extension out0 out1 names \<longleftrightarrow>
     (\<exists>ys. out1 = out0 @ ys \<and> distinct (map fst ys) \<and> fst ` set ys \<inter> fst ` set out0 = {} \<and>
           distinct names \<and> set names \<subseteq> fst ` set ys)"
proof
  assume f: "fresh_extension out0 out1 names"
  let ?ys = "drop (length out0) out1"
  have "out1 = out0 @ ?ys" using f by (metis append_take_drop_id fresh_extension_def)
  moreover have "distinct (map fst ?ys)" "distinct names" using f by (simp_all add: fresh_extension_def)
  moreover have "fst ` set ?ys \<inter> fst ` set out0 = {}"
    using f by (auto simp: fresh_extension_def list_all_iff exists_in_def)
  moreover have "set names \<subseteq> fst ` set ?ys"
    using f by (auto simp: fresh_extension_def list_all_iff)
  ultimately show "\<exists>ys. out1 = out0 @ ys \<and> distinct (map fst ys) \<and> fst ` set ys \<inter> fst ` set out0 = {} \<and>
           distinct names \<and> set names \<subseteq> fst ` set ys" by blast
next
  assume "\<exists>ys. out1 = out0 @ ys \<and> distinct (map fst ys) \<and> fst ` set ys \<inter> fst ` set out0 = {} \<and>
           distinct names \<and> set names \<subseteq> fst ` set ys"
  then obtain ys where "out1 = out0 @ ys" "distinct (map fst ys)" "fst ` set ys \<inter> fst ` set out0 = {}"
    "distinct names" "set names \<subseteq> fst ` set ys" by blast
  then show "fresh_extension out0 out1 names"
    by (auto simp: fresh_extension_def list_all_iff exists_in_def)
qed

lemma fresh_extension_refl: "fresh_extension out0 out0 []"
  by (simp add: fresh_extension_def)

lemma fresh_extension_add:
  assumes "fresh_extension out0 out names" and "\<not> exists_in out nm"
  shows "fresh_extension out0 (out @ [(nm, c)]) (names @ [nm])"
proof -
  from assms(1) obtain ys where ys: "out = out0 @ ys" "distinct (map fst ys)"
    "fst ` set ys \<inter> fst ` set out0 = {}" "distinct names" "set names \<subseteq> fst ` set ys"
    unfolding fresh_extension_iff by blast
  have n: "nm \<notin> fst ` set out0" "nm \<notin> fst ` set ys"
    using assms(2) ys(1) by (auto simp: exists_in_def)
  have "out @ [(nm, c)] = out0 @ (ys @ [(nm, c)])" using ys(1) by simp
  moreover have "distinct (map fst (ys @ [(nm, c)]))" using ys(2) n(2) by auto
  moreover have "fst ` set (ys @ [(nm, c)]) \<inter> fst ` set out0 = {}" using ys(3) n(1) by auto
  moreover have "distinct (names @ [nm])" using ys(4,5) n(2) by auto
  moreover have "set (names @ [nm]) \<subseteq> fst ` set (ys @ [(nm, c)])" using ys(5) by auto
  ultimately show ?thesis unfolding fresh_extension_iff by blast
qed

lemma fresh_extension_names:
  assumes "fresh_extension out0 out names" and "distinct names'" and "set names' \<subseteq> set names"
  shows "fresh_extension out0 out names'"
  using assms unfolding fresh_extension_iff by blast

lemma copy_loop_fresh:
  assumes "copy_loop fs dn dv prefix lfs (out, copied, w) = (out', copied', w')"
    and "CHR ''/'' \<notin> set prefix"
    and "fresh_extension out0 out (prev @ copied)"
  shows "fresh_extension out0 out' (prev @ copied')"
  using assms
proof (induction lfs arbitrary: out copied w)
  case Nil
  then show ?case by simp
next
  case (Cons lf lfs)
  obtain r o1 where r: "copy_with_unique_name fs out lf prefix = (r, o1)"
    by (cases "copy_with_unique_name fs out lf prefix")
  show ?case
  proof (cases r)
    case (Inl e)
    then have "o1 = out" using r copy_error_keeps_dir by blast
    with Cons.prems(1) r Inl have
      "copy_loop fs dn dv prefix lfs (out, copied,
         w @ [''[WARN] copy failed: '' @ dn @ '' '' @ dv @ '' : '' @ lf @ '' : '' @ error_text e])
       = (out', copied', w')" by simp
    from Cons.IH [OF this Cons.prems(2) Cons.prems(3)] show ?thesis .
  next
    case (Inr nm)
    then have c: "copy_with_unique_name fs out lf prefix = (Inr nm, o1)" using r by simp
    from copy_unique_name(1,2) [OF c Cons.prems(2)] obtain cnt where
      f: "\<not> exists_in out nm" and o: "o1 = out @ [(nm, cnt)]" by blast
    have fe: "fresh_extension out0 o1 (prev @ (copied @ [nm]))"
      using fresh_extension_add [OF Cons.prems(3) f, of cnt] o by simp
    from Cons.prems(1) c have "copy_loop fs dn dv prefix lfs (o1, copied @ [nm], w) = (out', copied', w')"
      by simp
    from Cons.IH [OF this Cons.prems(2) fe] show ?thesis .
  qed
qed

lemma slash_not_safe: "\<not> safe_char (CHR ''/'')"
  by (simp add: safe_char_def)

lemma norm_name_no_slash: "CHR ''/'' \<notin> set (norm_name dn)"
proof
  assume "CHR ''/'' \<in> set (norm_name dn)"
  then have "CHR ''/'' \<in> set (sub_unsafe (sub_ws (strip dn)))" by (simp add: norm_name_def)
  then have "safe_char (CHR ''/'')"
    by (auto simp: sub_unsafe_def safe_char_def split: if_splits)
  then show False using slash_not_safe by simp
qed

lemma process_dist_fresh:
  assumes "process_dist fs find_dir exclude st d = Inr st'"
    and "fresh_extension out0 (out_dir st) (all_copied st)"
  shows "fresh_extension out0 (out_dir st') (all_copied st')"
proof (cases "dist_name_of d")
  case None
  then show ?thesis using assms by (simp add: process_dist_def)
next
  case (Some dn)
  show ?thesis
  proof (cases "dn = [] \<or> lower (norm_name dn) \<in> exclude \<or> lower dn \<in> exclude")
    case True
    then have "process_dist fs find_dir exclude st d = Inr st"
      using Some by (auto simp: process_dist_def)
    then have "st' = st" using assms(1) by simp
    then show ?thesis using assms(2) by simp
  next
    case False
    have ne: "dn \<noteq> []" "lower (norm_name dn) \<notin> exclude" "lower dn \<notin> exclude"
      using False by simp_all
    obtain dir where fd: "find_dir d = Inr dir"
      using assms(1) Some ne by (cases "find_dir d") (simp_all add: process_dist_def)
    obtain lic_files where sel: "select_license_files_from_dist fs d dir = Inr lic_files"
      using assms(1) Some ne fd
      by (cases "select_license_files_from_dist fs d dir") (simp_all add: process_dist_def)
    obtain o1 copied w1 where cl:
      "copy_loop fs dn (dist_ver_of d) (norm_name dn) lic_files (out_dir st, [], warnings st)
       = (o1, copied, w1)"
      by (metis prod_cases3)
    have a: "fresh_extension out0 (out_dir st) (all_copied st @ [])" using assms(2) by simp
    from copy_loop_fresh [OF cl norm_name_no_slash a]
    have fe: "fresh_extension out0 o1 (all_copied st @ copied)" .
    then have d: "distinct (all_copied st @ copied)" unfolding fresh_extension_iff by blast
    have fe': "fresh_extension out0 o1 (all_copied st @ sort copied)"
      using fe by (rule fresh_extension_names) (use d in auto)
    have o: "out_dir st' = o1"
      using assms(1) Some ne fd sel cl by (auto simp: process_dist_def)
    have ac: "all_copied st' = all_copied st @ sort copied"
      using assms(1) Some ne fd sel cl by (auto simp: process_dist_def all_copied_def)
    show ?thesis using fe' o ac by simp
  qed
qed

lemma process_all_fresh:
  assumes "process_all fs find_dir exclude st ds = Inr st'"
    and "fresh_extension out0 (out_dir st) (all_copied st)"
  shows "fresh_extension out0 (out_dir st') (all_copied st')"
  using assms
proof (induction ds arbitrary: st)
  case Nil
  then show ?case by simp
next
  case (Cons d ds)
  from Cons.prems(1) obtain st1 where p: "process_dist fs find_dir exclude st d = Inr st1"
    and r: "process_all fs find_dir exclude st1 ds = Inr st'"
    by (auto split: sum.splits)
  from Cons.IH [OF r process_dist_fresh [OF p Cons.prems(2)]] show ?case .
qed

lemma python_no_slash: "CHR ''/'' \<notin> set ''Python''"
  by simp

lemma try_copy_candidates_cases:
  "try_copy_candidates fs out cs = (r, out') \<Longrightarrow>
     (case r of
        Inl e \<Rightarrow> out' = out
      | Inr None \<Rightarrow> out' = out
      | Inr (Some n) \<Rightarrow> \<not> exists_in out n \<and> (\<exists>c. out' = out @ [(n, c)]))"
proof (induction cs)
  case Nil
  then show ?case by auto
next
  case (Cons c cs)
  show ?case
  proof (cases "is_file fs c")
    case (Inl e)
    then show ?thesis using Cons.prems by auto
  next
    case (Inr b)
    show ?thesis
    proof (cases b)
      case False
      then show ?thesis using Cons Inr by simp
    next
      case True
      obtain r1 o1 where c1: "copy_with_unique_name fs out c ''Python'' = (r1, o1)"
        by (cases "copy_with_unique_name fs out c ''Python''")
      show ?thesis
      proof (cases r1)
        case (Inl e)
        then have "o1 = out" using c1 copy_error_keeps_dir by blast
        then show ?thesis using Cons.prems True Inr c1 Inl by auto
      next
        case inr: (Inr n)
        then have c2: "copy_with_unique_name fs out c ''Python'' = (Inr n, o1)" using c1 by simp
        from copy_unique_name(1,2) [OF c2 python_no_slash]
        have "\<not> exists_in out n \<and> (\<exists>cnt. o1 = out @ [(n, cnt)])" by blast
        then show ?thesis using Cons.prems True Inr c2 by auto
      qed
    qed
  qed
qed

lemma add_python_license_fresh:
  assumes "add_python_license fs rt st1 = Inr st"
    and f1: "fresh_extension out0 (out_dir st1) (all_copied st1)"
  shows "fresh_extension out0 (out_dir st) (all_copied st)"
proof -
  obtain r o2 where t: "try_copy_python_license fs rt (out_dir st1) = (r, o2)"
    by (cases "try_copy_python_license fs rt (out_dir st1)")
  from t have tc: "case r of Inl e \<Rightarrow> o2 = out_dir st1 | Inr None \<Rightarrow> o2 = out_dir st1
      | Inr (Some n) \<Rightarrow> \<not> exists_in (out_dir st1) n \<and> (\<exists>c. o2 = out_dir st1 @ [(n, c)])"
    unfolding try_copy_python_license_def by (rule try_copy_candidates_cases)
  have c: "(case (r, o2) of
                (Inl e, out') \<Rightarrow> Inl e
              | (Inr None, out') \<Rightarrow>
                  Inr (st1\<lparr>out_dir := out', warnings := warnings st1 @
                    [''[WARN] Python runtime LICENSE was not found under sys.base_prefix.'']\<rparr>)
              | (Inr (Some py_copied), out') \<Rightarrow>
                  if py_copied = [] then
                    Inr (st1\<lparr>out_dir := out', warnings := warnings st1 @
                      [''[WARN] Python runtime LICENSE was not found under sys.base_prefix.'']\<rparr>)
                  else
                    (case py_ver rt of
                       Inl e \<Rightarrow> Inl e
                     | Inr v \<Rightarrow>
                         Inr (st1\<lparr>out_dir := out', results := results st1 @
                           [\<lparr>dist_name = ''Python'', dist_version = v,
                             inferred_license = ''Python Software Foundation License (PSF-2.0)'',
                             copied_files = [py_copied]\<rparr>]\<rparr>))) = Inr st"
    using assms(1) t unfolding add_python_license_def by simp
  show ?thesis
  proof (cases r)
    case (Inl e)
    then show ?thesis using c by simp
  next
    case (Inr on)
    show ?thesis
    proof (cases on)
      case None
      then have "o2 = out_dir st1" using tc Inr by simp
      moreover have "st = st1\<lparr>out_dir := o2, warnings := warnings st1 @
                    [''[WARN] Python runtime LICENSE was not found under sys.base_prefix.'']\<rparr>"
        using c Inr None by simp
      ultimately show ?thesis using f1 by (simp add: all_copied_def)
    next
      case (Some n)
      from tc Inr Some obtain cnt where n: "\<not> exists_in (out_dir st1) n"
        and o2: "o2 = out_dir st1 @ [(n, cnt)]" by auto
      have fa: "fresh_extension out0 o2 (all_copied st1 @ [n])"
        unfolding o2 using f1 n by (rule fresh_extension_add)
      show ?thesis
      proof (cases "n = []")
        case True
        then have "st = st1\<lparr>out_dir := o2, warnings := warnings st1 @
                    [''[WARN] Python runtime LICENSE was not found under sys.base_prefix.'']\<rparr>"
          using c Inr Some by simp
        moreover have "fresh_extension out0 o2 (all_copied st1)"
          using fa by (rule fresh_extension_names)
            (use fa in \<open>auto simp: fresh_extension_iff\<close>)
        ultimately show ?thesis by (simp add: all_copied_def)
      next
        case False
        then obtain v where "py_ver rt = Inr v" and
          "st = st1\<lparr>out_dir := o2, results := results st1 @
                           [\<lparr>dist_name = ''Python'', dist_version = v,
                             inferred_license = ''Python Software Foundation License (PSF-2.0)'',
                             copied_files = [n]\<rparr>]\<rparr>"
          using c Inr Some by (auto split: sum.splits)
        then show ?thesis using fa by (simp add: all_copied_def)
      qed
    qed
  qed
qed

lemma collect_fresh:
  assumes "collect_licenses fs rt dists out0 exclude = Inr st"
  shows "fresh_extension out0 (out_dir st) (all_copied st)"
proof -
  from assms obtain sp st1 where
    p: "process_all fs (find_dist_info_dir rt sp) exclude
          \<lparr>out_dir = out0, results = [], warnings = []\<rparr> (sort_key sort_key_of dists) = Inr st1"
    and a: "add_python_license fs rt st1 = Inr st"
    by (auto simp: collect_licenses_def split: sum.splits)
  have "fresh_extension out0 (out_dir st1) (all_copied st1)"
    using p by (rule process_all_fresh) (simp add: all_copied_def fresh_extension_refl)
  with a show ?thesis by (rule add_python_license_fresh)
qed

text \<open>
  What holds of every copy and of every run. A file located for a distribution is copied
  under the name \<open><normalized name>-<base name>\<close> when the output directory has no entry of
  that name; when it has one, the name is stem, \<open>_k\<close>, suffix, where stem and suffix are
  pathlib's \<open>stem\<close> and \<open>suffix\<close> of the whole target name and \<open>k\<close> is the first number from
  2 on whose name is unused. The copy adds one entry of a name that was not there and
  changes no other entry. For every run that returns, the output directory is the one
  before the run followed by new entries only, and the copied names recorded in the
  results are pairwise different and were not in the directory before.
\<close>

theorem copies_get_unique_names:
  "(copy_with_unique_name fs out src (norm_name dn) = (Inr nm, out') \<longrightarrow>
      \<not> exists_in out nm \<and>
      (\<exists>c. read_file fs src = Inr c \<and> out' = out @ [(nm, c)]) \<and>
      (if exists_in out (norm_name dn @ ''-'' @ path_name src)
       then \<exists>k\<ge>2. nm = name_stem (norm_name dn @ ''-'' @ path_name src) @ ''_'' @ str_nat k @
                         name_suffix (norm_name dn @ ''-'' @ path_name src) \<and>
                  (\<forall>j. 2 \<le> j \<and> j < k \<longrightarrow>
                     exists_in out
                       (name_stem (norm_name dn @ ''-'' @ path_name src) @ ''_'' @ str_nat j @
                        name_suffix (norm_name dn @ ''-'' @ path_name src)))
       else nm = norm_name dn @ ''-'' @ path_name src)) \<and>
   name_stem x @ name_suffix x = x \<and>
   (collect_licenses fs rt dists out0 exclude = Inr st \<longrightarrow>
      fresh_extension out0 (out_dir st) (all_copied st))"
proof (intro conjI impI)
  assume c: "copy_with_unique_name fs out src (norm_name dn) = (Inr nm, out')"
  note r = copy_unique_name [OF c norm_name_no_slash]
  show "\<not> exists_in out nm" by (rule r(1))
  show "\<exists>c. read_file fs src = Inr c \<and> out' = out @ [(nm, c)]" by (rule r(2))
  show "if exists_in out (norm_name dn @ ''-'' @ path_name src)
       then \<exists>k\<ge>2. nm = name_stem (norm_name dn @ ''-'' @ path_name src) @ ''_'' @ str_nat k @
                         name_suffix (norm_name dn @ ''-'' @ path_name src) \<and>
                  (\<forall>j. 2 \<le> j \<and> j < k \<longrightarrow>
                     exists_in out
                       (name_stem (norm_name dn @ ''-'' @ path_name src) @ ''_'' @ str_nat j @
                        name_suffix (norm_name dn @ ''-'' @ path_name src)))
       else nm = norm_name dn @ ''-'' @ path_name src"
  proof (cases "exists_in out (norm_name dn @ ''-'' @ path_name src)")
    case True
    from r(4) [OF True] show ?thesis using True unfolding candidate_def by simp
  next
    case False
    from r(3) [OF False] show ?thesis using False by simp
  qed
next
  show "name_stem x @ name_suffix x = x" by (rule stem_suffix)
next
  assume "collect_licenses fs rt dists out0 exclude = Inr st"
  then show "fresh_extension out0 (out_dir st) (all_copied st)" by (rule collect_fresh)
qed

theorem copies_get_unique_names_witness:
  "copy_with_unique_name
     \<lparr>is_file = (\<lambda>p. Inr (p \<noteq> ''/usr/LICENSE.txt'')), is_dir = (\<lambda>p. Inr True), resolve = (\<lambda>p. Inr p),
      rglob = (\<lambda>p. Inr []), glob = (\<lambda>d p. Inr []), read_file = (\<lambda>p. Inr ''text''), mkdir = None\<rparr>
     [(''foo-LICENSE.txt'', ''old''), (''foo-LICENSE_2.txt'', ''older'')]
     ''/sp/foo/LICENSE.txt'' (norm_name ''foo'')
   = (Inr ''foo-LICENSE_3.txt'',
      [(''foo-LICENSE.txt'', ''old''), (''foo-LICENSE_2.txt'', ''older'')] @
      [(''foo-LICENSE_3.txt'', ''text'')]) \<and>
   \<not> exists_in [(''foo-LICENSE.txt'', ''old''), (''foo-LICENSE_2.txt'', ''older'')]
       ''foo-LICENSE_3.txt'' \<and>
   collect_licenses
     \<lparr>is_file = (\<lambda>p. Inr (p \<noteq> ''/usr/LICENSE.txt'')), is_dir = (\<lambda>p. Inr True), resolve = (\<lambda>p. Inr p),
      rglob = (\<lambda>p. Inr []), glob = (\<lambda>d p. Inr []), read_file = (\<lambda>p. Inr ''text''), mkdir = None\<rparr>
     \<lparr>sys_prefix = ''/venv'', sys_base_prefix = ''/usr'', sys_version = ''3.11.4 (main)'',
      find_dist_info_dir = (\<lambda>sp d. Inr None)\<rparr>
     [\<lparr>meta_Name = Some ''foo'', name = Some ''foo'', version = Some ''1.0'',
       meta_Classifier = None, meta_License = Some ''MIT'',
       files = Inr (Some [''foo/LICENSE.txt'', ''foo/vendor/LICENSE.txt'']),
       locate_file = (\<lambda>f. ''/sp/'' @ f)\<rparr>]
     [(''foo-LICENSE.txt'', ''old'')] {}
   = Inr \<lparr>out_dir =
        [(''foo-LICENSE.txt'', ''old''), (''foo-LICENSE_2.txt'', ''text''),
         (''foo-LICENSE_3.txt'', ''text''), (''Python-LICENSE'', ''text'')],
      results =
        [\<lparr>dist_name = ''foo'', dist_version = ''1.0'', inferred_license = ''MIT'',
          copied_files = [''foo-LICENSE_2.txt'', ''foo-LICENSE_3.txt'']\<rparr>,
         \<lparr>dist_name = ''Python'', dist_version = ''3.11.4'',
          inferred_license = ''Python Software Foundation License (PSF-2.0)'',
          copied_files = [''Python-LICENSE'']\<rparr>],
      warnings = []\<rparr> \<and>
   fresh_extension [(''foo-LICENSE.txt'', ''old'')]
     [(''foo-LICENSE.txt'', ''old''), (''foo-LICENSE_2.txt'', ''text''),
      (''foo-LICENSE_3.txt'', ''text''), (''Python-LICENSE'', ''text'')]
     [''foo-LICENSE_2.txt'', ''foo-LICENSE_3.txt'', ''Python-LICENSE'']"
proof -
  let ?fs = "\<lparr>is_file = (\<lambda>p. Inr (p \<noteq> ''/usr/LICENSE.txt'')), is_dir = (\<lambda>p. Inr True), resolve = (\<lambda>p. Inr p),
      rglob = (\<lambda>p. Inr []), glob = (\<lambda>d p. Inr []), read_file = (\<lambda>p. Inr ''text''), mkdir = None\<rparr>"
  let ?rt = "\<lparr>sys_prefix = ''/venv'', sys_base_prefix = ''/usr'', sys_version = ''3.11.4 (main)'',
      find_dist_info_dir = (\<lambda>sp d. Inr None)\<rparr>"
  let ?d = "\<lparr>meta_Name = Some ''foo'', name = Some ''foo'', version = Some ''1.0'',
       meta_Classifier = None, meta_License = Some ''MIT'',
       files = Inr (Some [''foo/LICENSE.txt'', ''foo/vendor/LICENSE.txt'']),
       locate_file = (\<lambda>f. ''/sp/'' @ f)\<rparr>"
  let ?st = "\<lparr>out_dir =
        [(''foo-LICENSE.txt'', ''old''), (''foo-LICENSE_2.txt'', ''text''),
         (''foo-LICENSE_3.txt'', ''text''), (''Python-LICENSE'', ''text'')],
      results =
        [\<lparr>dist_name = ''foo'', dist_version = ''1.0'', inferred_license = ''MIT'',
          copied_files = [''foo-LICENSE_2.txt'', ''foo-LICENSE_3.txt'']\<rparr>,
         \<lparr>dist_name = ''Python'', dist_version = ''3.11.4'',
          inferred_license = ''Python Software Foundation License (PSF-2.0)'',
          copied_files = [''Python-LICENSE'']\<rparr>],
      warnings = []\<rparr>"
  let ?out = "[(''foo-LICENSE.txt'', ''old''), (''foo-LICENSE_2.txt'', ''older'')]"
  have c: "copy_with_unique_name ?fs ?out ''/sp/foo/LICENSE.txt'' (norm_name ''foo'')
           = (Inr ''foo-LICENSE_3.txt'', ?out @ [(''foo-LICENSE_3.txt'', ''text'')])"
    by code_simp
  have r: "collect_licenses ?fs ?rt [?d] [(''foo-LICENSE.txt'', ''old'')] {} = Inr ?st"
    by code_simp
  note t = copies_get_unique_names
    [of ?fs ?out "''/sp/foo/LICENSE.txt''" "''foo''" "''foo-LICENSE_3.txt''"
        "?out @ [(''foo-LICENSE_3.txt'', ''text'')]" "[]" ?rt "[?d]"
        "[(''foo-LICENSE.txt'', ''old'')]" "{}" ?st]
  from t c have a: "\<not> exists_in ?out ''foo-LICENSE_3.txt''" by blast
  from t r have "fresh_extension [(''foo-LICENSE.txt'', ''old'')] (out_dir ?st) (all_copied ?st)"
    by blast
  then have b: "fresh_extension [(''foo-LICENSE.txt'', ''old'')]
     [(''foo-LICENSE.txt'', ''old''), (''foo-LICENSE_2.txt'', ''text''),
      (''foo-LICENSE_3.txt'', ''text''), (''Python-LICENSE'', ''text'')]
     [''foo-LICENSE_2.txt'', ''foo-LICENSE_3.txt'', ''Python-LICENSE'']"
    by (simp add: all_copied_def)
  from c a r b show ?thesis by (intro conjI)
qed

text \<open>
  Claim C4 does not hold of the code where the normalized name has a dot. The number is
  put before \<open>dst.suffix\<close>, the text from the last dot of the whole target name; for the
  distribution \<open>zope.interface\<close> and a file \<open>LICENSE\<close> that dot lies in the prefix. With
  \<open>zope.interface-LICENSE\<close> taken, the copy is named \<open>zope_2.interface-LICENSE\<close>: the number
  is not before the extension of the file, and the name no longer begins with the
  normalized name. The claim's name is \<open>zope.interface-LICENSE_2\<close>. The copy is still made
  under an unused name and nothing is overwritten.
\<close>

theorem dotted_prefix_number_inside_name:
  "copy_with_unique_name
     \<lparr>is_file = (\<lambda>p. Inr True), is_dir = (\<lambda>p. Inr True), resolve = (\<lambda>p. Inr p),
      rglob = (\<lambda>p. Inr []), glob = (\<lambda>d p. Inr []), read_file = (\<lambda>p. Inr ''text''),
      mkdir = None\<rparr>
     [(''zope.interface-LICENSE'', ''old'')]
     ''/sp/zope/interface/LICENSE'' (norm_name ''zope.interface'')
   = (Inr ''zope_2.interface-LICENSE'',
      [(''zope.interface-LICENSE'', ''old''), (''zope_2.interface-LICENSE'', ''text'')]) \<and>
   spec_numbered_name (norm_name ''zope.interface'') (path_name ''/sp/zope/interface/LICENSE'') 2
   = ''zope.interface-LICENSE_2''"
  by code_simp

section \<open>The collector: skipped distributions\<close>

lemma process_all_skip:
  assumes "\<And>st d. skip d \<Longrightarrow> process_dist fs fd exclude st d = Inr st"
  shows "process_all fs fd exclude st ds
         = process_all fs fd exclude st (filter (\<lambda>d. \<not> skip d) ds)"
  using assms by (induction ds arbitrary: st) (auto split: sum.splits)

lemma collect_filter:
  assumes "\<And>fd st d. skip d \<Longrightarrow> process_dist fs fd exclude st d = Inr st"
  shows "collect_licenses fs rt dists out0 exclude
         = collect_licenses fs rt (filter (\<lambda>d. \<not> skip d) dists) out0 exclude"
proof -
  have h: "\<And>fd st. process_all fs fd exclude st (sort_key sort_key_of dists)
        = process_all fs fd exclude st
            (sort_key sort_key_of (filter (\<lambda>d. \<not> skip d) dists))"
  proof -
    fix fd st
    have "process_all fs fd exclude st (sort_key sort_key_of dists)
          = process_all fs fd exclude st
              (filter (\<lambda>d. \<not> skip d) (sort_key sort_key_of dists))"
      by (rule process_all_skip) (rule assms)
    then show "process_all fs fd exclude st (sort_key sort_key_of dists)
        = process_all fs fd exclude st
            (sort_key sort_key_of (filter (\<lambda>d. \<not> skip d) dists))"
      by (simp add: filter_sort)
  qed
  show ?thesis unfolding collect_licenses_def h by (rule refl)
qed

lemma excluded_skip: "excluded exclude d \<Longrightarrow> process_dist fs fd exclude st d = Inr st"
  by (auto simp: excluded_def process_dist_def split: option.splits)

lemma nameless_skip: "nameless d \<Longrightarrow> process_dist fs fd exclude st d = Inr st"
  by (auto simp: nameless_def process_dist_def dist_name_of_def split: option.splits)

lemma pip_excluded: "lower (norm_name ''pip'') \<in> exclude_of_args [''pip'']"
  by (simp add: exclude_of_args_def)

text \<open>
  Claim C9, as stated, fails: the code looks up the normalized name in lower case. With
  the exclude set \<open>{Foo}\<close>, the distribution \<open>Foo\<close> has its normalized name in the set, and
  is processed all the same: it gets a result record and a warning.
\<close>

theorem normalized_name_in_exclude_not_skipped:
  "spec_excluded {''Foo''}
     \<lparr>meta_Name = Some ''Foo'', name = Some ''Foo'', version = Some ''1.0'',
       meta_Classifier = None, meta_License = None,
       files = Inr None, locate_file = (\<lambda>f. f)\<rparr> \<and>
   process_dist
     \<lparr>is_file = (\<lambda>p. Inr False), is_dir = (\<lambda>p. Inr False), resolve = (\<lambda>p. Inr p),
      rglob = (\<lambda>p. Inr []), glob = (\<lambda>d p. Inr []), read_file = (\<lambda>p. Inr ''text''), mkdir = None\<rparr>
     (\<lambda>d. Inr None) {''Foo''} \<lparr>out_dir = [], results = [], warnings = []\<rparr>
     \<lparr>meta_Name = Some ''Foo'', name = Some ''Foo'', version = Some ''1.0'',
       meta_Classifier = None, meta_License = None,
       files = Inr None, locate_file = (\<lambda>f. f)\<rparr>
   = Inr \<lparr>out_dir = [],
      results = [\<lparr>dist_name = ''Foo'', dist_version = ''1.0'',
                  inferred_license = ''UNKNOWN'', copied_files = []\<rparr>],
      warnings = [''[WARN] no license file found for: Foo 1.0'']\<rparr>"
proof
  show "spec_excluded {''Foo''}
     \<lparr>meta_Name = Some ''Foo'', name = Some ''Foo'', version = Some ''1.0'',
       meta_Classifier = None, meta_License = None,
       files = Inr None, locate_file = (\<lambda>f. f)\<rparr>"
    unfolding spec_excluded_def by code_simp
  show "process_dist
     \<lparr>is_file = (\<lambda>p. Inr False), is_dir = (\<lambda>p. Inr False), resolve = (\<lambda>p. Inr p),
      rglob = (\<lambda>p. Inr []), glob = (\<lambda>d p. Inr []), read_file = (\<lambda>p. Inr ''text''), mkdir = None\<rparr>
     (\<lambda>d. Inr None) {''Foo''} \<lparr>out_dir = [], results = [], warnings = []\<rparr>
     \<lparr>meta_Name = Some ''Foo'', name = Some ''Foo'', version = Some ''1.0'',
       meta_Classifier = None, meta_License = None,
       files = Inr None, locate_file = (\<lambda>f. f)\<rparr>
   = Inr \<lparr>out_dir = [],
      results = [\<lparr>dist_name = ''Foo'', dist_version = ''1.0'',
                  inferred_license = ''UNKNOWN'', copied_files = []\<rparr>],
      warnings = [''[WARN] no license file found for: Foo 1.0'']\<rparr>"
    by code_simp
qed

text \<open>
  Claim C9, amended. For every distribution whose normalized name in lower case, or raw
  name in lower case, is in the exclude set, the loop body leaves the collector's state
  as it is (no record, no warning, no copy), and the whole run gives the same results,
  warnings and output directory as a run on the catalog without the excluded
  distributions. With the exclude set that \<open>main\<close> builds from \<open>--exclude pip\<close>, a
  distribution named \<open>pip\<close> is skipped so.
\<close>

theorem excluded_dist_leaves_no_trace:
  "(excluded exclude d \<longrightarrow> process_dist fs fd exclude st d = Inr st) \<and>
   collect_licenses fs rt dists out0 exclude
     = collect_licenses fs rt (filter (\<lambda>d. \<not> excluded exclude d) dists) out0 exclude \<and>
   process_dist fs fd (exclude_of_args [''pip'']) st
     \<lparr>meta_Name = Some ''pip'', name = nm, version = ver, meta_Classifier = cl,
      meta_License = lic, files = fl, locate_file = loc\<rparr> = Inr st"
proof (intro conjI)
  show "excluded exclude d \<longrightarrow> process_dist fs fd exclude st d = Inr st"
    using excluded_skip by blast
  show "collect_licenses fs rt dists out0 exclude
     = collect_licenses fs rt (filter (\<lambda>d. \<not> excluded exclude d) dists) out0 exclude"
    by (rule collect_filter) (rule excluded_skip)
  show "process_dist fs fd (exclude_of_args [''pip'']) st
     \<lparr>meta_Name = Some ''pip'', name = nm, version = ver, meta_Classifier = cl,
      meta_License = lic, files = fl, locate_file = loc\<rparr> = Inr st"
    by (rule excluded_skip) (simp add: excluded_def dist_name_of_def pip_excluded)
qed

theorem excluded_dist_leaves_no_trace_witness:
  "excluded (exclude_of_args [''pip''])
     \<lparr>meta_Name = Some ''pip'', name = Some ''pip'', version = Some ''24.0'',
       meta_Classifier = None, meta_License = Some ''MIT'',
       files = Inr None, locate_file = (\<lambda>f. f)\<rparr> \<and>
   process_dist
     \<lparr>is_file = (\<lambda>p. Inr (p \<noteq> ''/usr/LICENSE.txt'')), is_dir = (\<lambda>p. Inr True), resolve = (\<lambda>p. Inr p),
      rglob = (\<lambda>p. Inr []), glob = (\<lambda>d p. Inr []), read_file = (\<lambda>p. Inr ''text''), mkdir = None\<rparr>
     (\<lambda>d. Inr None) (exclude_of_args [''pip'']) \<lparr>out_dir = [], results = [], warnings = []\<rparr>
     \<lparr>meta_Name = Some ''pip'', name = Some ''pip'', version = Some ''24.0'',
       meta_Classifier = None, meta_License = Some ''MIT'',
       files = Inr None, locate_file = (\<lambda>f. f)\<rparr>
   = Inr \<lparr>out_dir = [], results = [], warnings = []\<rparr> \<and>
   collect_licenses
     \<lparr>is_file = (\<lambda>p. Inr (p \<noteq> ''/usr/LICENSE.txt'')), is_dir = (\<lambda>p. Inr True), resolve = (\<lambda>p. Inr p),
      rglob = (\<lambda>p. Inr []), glob = (\<lambda>d p. Inr []), read_file = (\<lambda>p. Inr ''text''), mkdir = None\<rparr>
     \<lparr>sys_prefix = ''/venv'', sys_base_prefix = ''/usr'', sys_version = ''3.11.4 (main)'',
      find_dist_info_dir = (\<lambda>sp d. Inr None)\<rparr>
     [\<lparr>meta_Name = Some ''pip'', name = Some ''pip'', version = Some ''24.0'',
       meta_Classifier = None, meta_License = Some ''MIT'',
       files = Inr None, locate_file = (\<lambda>f. f)\<rparr>]
     [] (exclude_of_args [''pip''])
   = collect_licenses
     \<lparr>is_file = (\<lambda>p. Inr (p \<noteq> ''/usr/LICENSE.txt'')), is_dir = (\<lambda>p. Inr True), resolve = (\<lambda>p. Inr p),
      rglob = (\<lambda>p. Inr []), glob = (\<lambda>d p. Inr []), read_file = (\<lambda>p. Inr ''text''), mkdir = None\<rparr>
     \<lparr>sys_prefix = ''/venv'', sys_base_prefix = ''/usr'', sys_version = ''3.11.4 (main)'',
      find_dist_info_dir = (\<lambda>sp d. Inr None)\<rparr>
     [] [] (exclude_of_args [''pip''])"
proof -
  let ?fs = "\<lparr>is_file = (\<lambda>p. Inr (p \<noteq> ''/usr/LICENSE.txt'')), is_dir = (\<lambda>p. Inr True), resolve = (\<lambda>p. Inr p),
      rglob = (\<lambda>p. Inr []), glob = (\<lambda>d p. Inr []), read_file = (\<lambda>p. Inr ''text''), mkdir = None\<rparr>"
  let ?rt = "\<lparr>sys_prefix = ''/venv'', sys_base_prefix = ''/usr'', sys_version = ''3.11.4 (main)'',
      find_dist_info_dir = (\<lambda>sp d. Inr None)\<rparr>"
  let ?d = "\<lparr>meta_Name = Some ''pip'', name = Some ''pip'', version = Some ''24.0'',
       meta_Classifier = None, meta_License = Some ''MIT'',
       files = Inr None, locate_file = (\<lambda>f. f)\<rparr>"
  let ?st = "\<lparr>out_dir = [], results = [], warnings = []\<rparr>"
  have e: "excluded (exclude_of_args [''pip'']) ?d"
    by (simp add: excluded_def dist_name_of_def pip_excluded)
  note t = excluded_dist_leaves_no_trace
    [of "exclude_of_args [''pip'']" ?d ?fs "\<lambda>d. Inr None" ?st ?rt "[?d]" "[]"]
  from t e have a: "process_dist ?fs (\<lambda>d. Inr None) (exclude_of_args [''pip'']) ?st ?d = Inr ?st"
    by blast
  from t have "collect_licenses ?fs ?rt [?d] [] (exclude_of_args [''pip''])
     = collect_licenses ?fs ?rt
         (filter (\<lambda>d. \<not> excluded (exclude_of_args [''pip'']) d) [?d]) []
         (exclude_of_args [''pip''])"
    by blast
  then have b: "collect_licenses ?fs ?rt [?d] [] (exclude_of_args [''pip''])
     = collect_licenses ?fs ?rt [] [] (exclude_of_args [''pip''])"
    using e by simp
  from e a b show ?thesis by (intro conjI)
qed

text \<open>
  Claim C10. For every distribution whose metadata \<open>Name\<close> field and fallback name are both
  missing or empty, the loop body leaves the collector's state as it is, whatever the
  exclude set: no record, no warning, no copy; the whole run gives the same results,
  warnings and output directory as a run on the catalog without such distributions.
\<close>

theorem nameless_dist_leaves_no_trace:
  "(nameless d \<longrightarrow> process_dist fs fd exclude st d = Inr st) \<and>
   collect_licenses fs rt dists out0 exclude
     = collect_licenses fs rt (filter (\<lambda>d. \<not> nameless d) dists) out0 exclude"
proof (intro conjI)
  show "nameless d \<longrightarrow> process_dist fs fd exclude st d = Inr st"
    using nameless_skip by blast
  show "collect_licenses fs rt dists out0 exclude
     = collect_licenses fs rt (filter (\<lambda>d. \<not> nameless d) dists) out0 exclude"
    by (rule collect_filter) (rule nameless_skip)
qed

theorem nameless_dist_leaves_no_trace_witness:
  "nameless
     \<lparr>meta_Name = None, name = Some [], version = Some ''1.0'',
       meta_Classifier = None, meta_License = Some ''MIT'',
       files = Inr None, locate_file = (\<lambda>f. f)\<rparr> \<and>
   process_dist
     \<lparr>is_file = (\<lambda>p. Inr (p \<noteq> ''/usr/LICENSE.txt'')), is_dir = (\<lambda>p. Inr True), resolve = (\<lambda>p. Inr p),
      rglob = (\<lambda>p. Inr []), glob = (\<lambda>d p. Inr []), read_file = (\<lambda>p. Inr ''text''), mkdir = None\<rparr>
     (\<lambda>d. Inr None) {} \<lparr>out_dir = [], results = [], warnings = []\<rparr>
     \<lparr>meta_Name = None, name = Some [], version = Some ''1.0'',
       meta_Classifier = None, meta_License = Some ''MIT'',
       files = Inr None, locate_file = (\<lambda>f. f)\<rparr>
   = Inr \<lparr>out_dir = [], results = [], warnings = []\<rparr> \<and>
   collect_licenses
     \<lparr>is_file = (\<lambda>p. Inr (p \<noteq> ''/usr/LICENSE.txt'')), is_dir = (\<lambda>p. Inr True), resolve = (\<lambda>p. Inr p),
      rglob = (\<lambda>p. Inr []), glob = (\<lambda>d p. Inr []), read_file = (\<lambda>p. Inr ''text''), mkdir = None\<rparr>
     \<lparr>sys_prefix = ''/venv'', sys_base_prefix = ''/usr'', sys_version = ''3.11.4 (main)'',
      find_dist_info_dir = (\<lambda>sp d. Inr None)\<rparr>
     [\<lparr>meta_Name = None, name = Some [], version = Some ''1.0'',
       meta_Classifier = None, meta_License = Some ''MIT'',
       files = Inr None, locate_file = (\<lambda>f. f)\<rparr>]
     [] {}
   = collect_licenses
     \<lparr>is_file = (\<lambda>p. Inr (p \<noteq> ''/usr/LICENSE.txt'')), is_dir = (\<lambda>p. Inr True), resolve = (\<lambda>p. Inr p),
      rglob = (\<lambda>p. Inr []), glob = (\<lambda>d p. Inr []), read_file = (\<lambda>p. Inr ''text''), mkdir = None\<rparr>
     \<lparr>sys_prefix = ''/venv'', sys_base_prefix = ''/usr'', sys_version = ''3.11.4 (main)'',
      find_dist_info_dir = (\<lambda>sp d. Inr None)\<rparr>
     [] [] {}"
proof -
  let ?fs = "\<lparr>is_file = (\<lambda>p. Inr (p \<noteq> ''/usr/LICENSE.txt'')), is_dir = (\<lambda>p. Inr True), resolve = (\<lambda>p. Inr p),
      rglob = (\<lambda>p. Inr []), glob = (\<lambda>d p. Inr []), read_file = (\<lambda>p. Inr ''text''), mkdir = None\<rparr>"
  let ?rt = "\<lparr>sys_prefix = ''/venv'', sys_base_prefix = ''/usr'', sys_version = ''3.11.4 (main)'',
      find_dist_info_dir = (\<lambda>sp d. Inr None)\<rparr>"
  let ?d = "\<lparr>meta_Name = None, name = Some [], version = Some ''1.0'',
       meta_Classifier = None, meta_License = Some ''MIT'',
       files = Inr None, locate_file = (\<lambda>f. f)\<rparr>"
  let ?st = "\<lparr>out_dir = [], results = [], warnings = []\<rparr>"
  have e: "nameless ?d" by (simp add: nameless_def)
  note t = nameless_dist_leaves_no_trace [of ?d ?fs "\<lambda>d. Inr None" "{}" ?st ?rt "[?d]" "[]"]
  from t e have a: "process_dist ?fs (\<lambda>d. Inr None) {} ?st ?d = Inr ?st" by blast
  from t have "collect_licenses ?fs ?rt [?d] [] {}
     = collect_licenses ?fs ?rt (filter (\<lambda>d. \<not> nameless d) [?d]) [] {}"
    by blast
  then have b: "collect_licenses ?fs ?rt [?d] [] {} = collect_licenses ?fs ?rt [] [] {}"
    using e by simp
  from e a b show ?thesis by (intro conjI)
qed

end
